theory Spec2Isabelle
  imports Complex_Main "HOL-Library.Word"
begin

section \<open>Primitive types (core/types.hpp)\<close>

text \<open>
  \<open>OrderId\<close>, \<open>Quantity\<close> are \<open>uint64_t\<close>; \<open>Price\<close> is \<open>int64_t\<close>. All three are 64-bit
  words; a \<open>Price\<close> is read through \<open>sint\<close> wherever the source compares or converts it.
  The \<open>timestamp_\<close> members of \<open>Order\<close> and \<open>Trade\<close> hold a reading of the wall clock taken
  in the constructor and are read by no operation below; they are left out of the records.
\<close>

type_synonym OrderId = "64 word"
type_synonym Price = "64 word"
type_synonym Quantity = "64 word"
type_synonym Symbol = string

datatype Side = BUY | SELL

datatype OrderType = MARKET | LIMIT | STOP | STOP_LIMIT

datatype OrderStatus = NEW | PARTIALLY_FILLED | FILLED | CANCELLED | REJECTED

section \<open>Double precision values\<close>

text \<open>
  The source computes order values, prices in display units and profit and loss in
  \<open>double\<close>. The operations on doubles that the source uses are collected in a record
  that every function below takes as its first argument, so that a theorem stated for an
  arbitrary \<open>fp\<close> holds whatever the rounding, the infinities and the NaNs of the platform
  do. \<open>exact_fp\<close> is the instance without rounding, over the reals.
\<close>

record 'd fpops =
  d_const :: "int \<Rightarrow> 'd"
  d_of_u64 :: "64 word \<Rightarrow> 'd"
  d_of_i64 :: "64 word \<Rightarrow> 'd"
  d_add :: "'d \<Rightarrow> 'd \<Rightarrow> 'd"
  d_sub :: "'d \<Rightarrow> 'd \<Rightarrow> 'd"
  d_mul :: "'d \<Rightarrow> 'd \<Rightarrow> 'd"
  d_div :: "'d \<Rightarrow> 'd \<Rightarrow> 'd"
  d_neg :: "'d \<Rightarrow> 'd"
  d_less :: "'d \<Rightarrow> 'd \<Rightarrow> bool"

definition exact_fp :: "real fpops" where
  "exact_fp = \<lparr> d_const = of_int, d_of_u64 = (\<lambda>w. of_nat (unat w)),
     d_of_i64 = (\<lambda>w. of_int (sint w)),
     d_add = (+), d_sub = (-), d_mul = (*), d_div = (/), d_neg = uminus,
     d_less = (<) \<rparr>"

text \<open>\<open>priceToDouble\<close>: \<open>static_cast<double>(price) / 100.0\<close>.\<close>

definition priceToDouble :: "'d fpops \<Rightarrow> Price \<Rightarrow> 'd" where
  "priceToDouble fp price = d_div fp (d_of_i64 fp price) (d_const fp 100)"

section \<open>Order (core/order.hpp)\<close>

record Order =
  ord_id :: OrderId
  ord_symbol :: Symbol
  ord_side :: Side
  ord_type :: OrderType
  ord_price :: Price
  ord_quantity :: Quantity
  ord_remainingQuantity :: Quantity
  ord_status :: OrderStatus

text \<open>The two constructors: the general one and the one for market orders (no price).\<close>

definition Order_new :: "OrderId \<Rightarrow> Symbol \<Rightarrow> Side \<Rightarrow> OrderType \<Rightarrow> Price \<Rightarrow> Quantity \<Rightarrow> Order" where
  "Order_new i sy sd ty p q =
     \<lparr> ord_id = i, ord_symbol = sy, ord_side = sd, ord_type = ty, ord_price = p, ord_quantity = q,
       ord_remainingQuantity = q, ord_status = NEW \<rparr>"

definition Order_market :: "OrderId \<Rightarrow> Symbol \<Rightarrow> Side \<Rightarrow> Quantity \<Rightarrow> Order" where
  "Order_market i sy sd q =
     \<lparr> ord_id = i, ord_symbol = sy, ord_side = sd, ord_type = MARKET, ord_price = 0, ord_quantity = q,
       ord_remainingQuantity = q, ord_status = NEW \<rparr>"

definition fillQuantity :: "Quantity \<Rightarrow> Order \<Rightarrow> Order" where
  "fillQuantity qty ord =
     (let qty' = (if qty > ord_remainingQuantity ord then ord_remainingQuantity ord else qty);
          left = ord_remainingQuantity ord - qty'
      in ord\<lparr> ord_remainingQuantity := left,
              ord_status := (if left = 0 then FILLED else PARTIALLY_FILLED) \<rparr>)"

definition cancel :: "Order \<Rightarrow> Order" where
  "cancel ord = ord\<lparr> ord_status := CANCELLED, ord_remainingQuantity := 0 \<rparr>"

definition isActive :: "Order \<Rightarrow> bool" where
  "isActive ord = (ord_status ord = NEW \<or> ord_status ord = PARTIALLY_FILLED)"

section \<open>Shared order objects\<close>

text \<open>
  Orders are held through \<open>std::shared_ptr<Order>\<close>: the caller, the queue of a price level
  and the id index all point to the same object, and \<open>cancel\<close> or \<open>fillQuantity\<close> through one
  pointer is seen through the others. A pointer is an address \<open>ref\<close>, and the objects live
  in a store from addresses to orders.
\<close>

type_synonym ref = nat
type_synonym store = "ref \<Rightarrow> Order"

section \<open>PriceLevel (engine/price_level.hpp)\<close>

record PriceLevel =
  lvl_price :: Price
  lvl_totalQuantity :: Quantity
  lvl_orders :: "ref list"

datatype exn = runtime_error

definition PriceLevel_new :: "Price \<Rightarrow> PriceLevel" where
  "PriceLevel_new price = \<lparr> lvl_price = price, lvl_totalQuantity = 0, lvl_orders = [] \<rparr>"

text \<open>\<open>PriceLevel::addOrder\<close> throws when the order's price is not the level's.\<close>

definition PriceLevel_addOrder :: "store \<Rightarrow> PriceLevel \<Rightarrow> ref \<Rightarrow> exn + PriceLevel" where
  "PriceLevel_addOrder h l r =
     (if ord_price (h r) \<noteq> lvl_price l then Inl runtime_error
      else Inr (l\<lparr> lvl_orders := lvl_orders l @ [r],
                   lvl_totalQuantity := lvl_totalQuantity l + ord_remainingQuantity (h r) \<rparr>))"

text \<open>\<open>lvl_orders.erase(it)\<close> for the iterator \<open>std::find_if\<close> returned: the first match goes.\<close>

fun erase_first :: "('a \<Rightarrow> bool) \<Rightarrow> 'a list \<Rightarrow> 'a list" where
  "erase_first P [] = []"
| "erase_first P (x # xs) = (if P x then xs else x # erase_first P xs)"

definition PriceLevel_removeOrder :: "store \<Rightarrow> PriceLevel \<Rightarrow> OrderId \<Rightarrow> bool \<times> PriceLevel" where
  "PriceLevel_removeOrder h l orderId =
     (case find (\<lambda>r. ord_id (h r) = orderId) (lvl_orders l) of
        Some r \<Rightarrow> (True, l\<lparr> lvl_totalQuantity := lvl_totalQuantity l - ord_remainingQuantity (h r),
                            lvl_orders := erase_first (\<lambda>r. ord_id (h r) = orderId) (lvl_orders l) \<rparr>)
      | None \<Rightarrow> (False, l))"

definition isEmpty :: "PriceLevel \<Rightarrow> bool" where
  "isEmpty l = (lvl_orders l = [])"

definition getOrderCount :: "PriceLevel \<Rightarrow> nat" where
  "getOrderCount l = length (lvl_orders l)"

section \<open>The ordered maps of the book\<close>

text \<open>
  \<open>std::map<Price, PriceLevel, Compare>\<close> is a list of key/value pairs in iteration order:
  \<open>bids\<close> uses \<open>std::greater<Price>\<close> (highest price first), \<open>asks\<close> uses
  \<open>std::less<Price>\<close> (lowest first), both on the signed value.
\<close>

type_synonym levels = "(Price \<times> PriceLevel) list"

definition price_greater :: "Price \<Rightarrow> Price \<Rightarrow> bool" where
  "price_greater a b = (sint a > sint b)"

definition price_less :: "Price \<Rightarrow> Price \<Rightarrow> bool" where
  "price_less a b = (sint a < sint b)"

text \<open>\<open>m.find(k)\<close>, \<open>m.emplace(k, v)\<close> (no effect when the key is there), assignment through
  the iterator \<open>find\<close> returned, and \<open>m.erase(it)\<close> for that iterator.\<close>

definition map_find :: "levels \<Rightarrow> Price \<Rightarrow> PriceLevel option" where
  "map_find m k = map_of m k"

fun map_emplace :: "(Price \<Rightarrow> Price \<Rightarrow> bool) \<Rightarrow> Price \<Rightarrow> PriceLevel \<Rightarrow> levels \<Rightarrow> levels" where
  "map_emplace precedes k v [] = [(k, v)]"
| "map_emplace precedes k v ((k', v') # m) =
     (if k = k' then (k', v') # m
      else if precedes k k' then (k, v) # (k', v') # m
      else (k', v') # map_emplace precedes k v m)"

fun map_assign :: "'k \<Rightarrow> 'v \<Rightarrow> ('k \<times> 'v) list \<Rightarrow> ('k \<times> 'v) list" where
  "map_assign k v [] = []"
| "map_assign k v ((k', v') # m) = (if k = k' then (k', v) # m else (k', v') # map_assign k v m)"

fun map_erase :: "Price \<Rightarrow> levels \<Rightarrow> levels" where
  "map_erase k [] = []"
| "map_erase k ((k', v') # m) = (if k = k' then m else (k', v') # map_erase k m)"

section \<open>OrderBook (engine/order_book.hpp)\<close>

record OrderBook =
  book_symbol :: Symbol
  bids :: levels
  asks :: levels
  orderMap :: "OrderId \<rightharpoonup> ref"

definition OrderBook_new :: "Symbol \<Rightarrow> OrderBook" where
  "OrderBook_new sy = \<lparr> book_symbol = sy, bids = [], asks = [], orderMap = Map.empty \<rparr>"

definition add_to_side :: "(Price \<Rightarrow> Price \<Rightarrow> bool) \<Rightarrow> store \<Rightarrow> levels \<Rightarrow> ref \<Rightarrow> exn + levels" where
  "add_to_side precedes h m r =
     (let price = ord_price (h r);
          m' = (case map_find m price of None \<Rightarrow> map_emplace precedes price (PriceLevel_new price) m
                | Some _ \<Rightarrow> m)
      in case map_find m' price of
           None \<Rightarrow> Inr m'
         | Some l \<Rightarrow> (case PriceLevel_addOrder h l r of
                        Inl e \<Rightarrow> Inl e
                      | Inr l' \<Rightarrow> Inr (map_assign price l' m')))"

definition addToBidSide :: "store \<Rightarrow> OrderBook \<Rightarrow> ref \<Rightarrow> exn + OrderBook" where
  "addToBidSide h b r =
     (case add_to_side price_greater h (bids b) r of
        Inl e \<Rightarrow> Inl e | Inr m \<Rightarrow> Inr (b\<lparr> bids := m \<rparr>))"

definition addToAskSide :: "store \<Rightarrow> OrderBook \<Rightarrow> ref \<Rightarrow> exn + OrderBook" where
  "addToAskSide h b r =
     (case add_to_side price_less h (asks b) r of
        Inl e \<Rightarrow> Inl e | Inr m \<Rightarrow> Inr (b\<lparr> asks := m \<rparr>))"

definition remove_from_side :: "store \<Rightarrow> levels \<Rightarrow> OrderId \<Rightarrow> Price \<Rightarrow> levels" where
  "remove_from_side h m orderId price =
     (case map_find m price of
        None \<Rightarrow> m
      | Some l \<Rightarrow>
          (let l' = snd (PriceLevel_removeOrder h l orderId)
           in if isEmpty l' then map_erase price m else map_assign price l' m))"

definition removeFromBidSide :: "store \<Rightarrow> OrderBook \<Rightarrow> OrderId \<Rightarrow> Price \<Rightarrow> OrderBook" where
  "removeFromBidSide h b orderId price = b\<lparr> bids := remove_from_side h (bids b) orderId price \<rparr>"

definition removeFromAskSide :: "store \<Rightarrow> OrderBook \<Rightarrow> OrderId \<Rightarrow> Price \<Rightarrow> OrderBook" where
  "removeFromAskSide h b orderId price = b\<lparr> asks := remove_from_side h (asks b) orderId price \<rparr>"

text \<open>
  \<open>OrderBook::addOrder\<close>: \<open>false\<close> on a foreign symbol or a duplicate id; the exception of
  \<open>PriceLevel::addOrder\<close> passes through.
\<close>

definition OrderBook_addOrder :: "store \<Rightarrow> OrderBook \<Rightarrow> ref \<Rightarrow> exn + (bool \<times> OrderBook)" where
  "OrderBook_addOrder h b r =
     (if ord_symbol (h r) \<noteq> book_symbol b then Inr (False, b)
      else let orderId = ord_id (h r) in
        if orderMap b orderId \<noteq> None then Inr (False, b)
        else case (if ord_side (h r) = BUY then addToBidSide h b r else addToAskSide h b r) of
               Inl e \<Rightarrow> Inl e
             | Inr b' \<Rightarrow> Inr (True, b'\<lparr> orderMap := (orderMap b')(orderId \<mapsto> r) \<rparr>))"

text \<open>
  \<open>OrderBook::cancelOrder\<close>: the order is cancelled through the pointer of the id index
  first, then taken out of the level at its price, then out of the index.
\<close>

definition OrderBook_cancelOrder :: "store \<Rightarrow> OrderBook \<Rightarrow> OrderId \<Rightarrow> bool \<times> store \<times> OrderBook" where
  "OrderBook_cancelOrder h b orderId =
     (case orderMap b orderId of
        None \<Rightarrow> (False, h, b)
      | Some r \<Rightarrow>
          (let h' = h(r := cancel (h r));
               price = ord_price (h' r);
               b' = (if ord_side (h' r) = BUY then removeFromBidSide h' b orderId price
                     else removeFromAskSide h' b orderId price)
           in (True, h', b'\<lparr> orderMap := (orderMap b')(orderId := None) \<rparr>)))"

text \<open>
  \<open>OrderBook::modifyOrder\<close>: a new order object (at the address \<open>fresh\<close> that
  \<open>std::make_shared\<close> returns) with the old id, symbol, side and type, then cancel, then add.
\<close>

definition OrderBook_modifyOrder ::
  "store \<Rightarrow> OrderBook \<Rightarrow> ref \<Rightarrow> OrderId \<Rightarrow> Price \<Rightarrow> Quantity \<Rightarrow> exn + (bool \<times> store \<times> OrderBook)" where
  "OrderBook_modifyOrder h b fresh orderId newPrice newQuantity =
     (case orderMap b orderId of
        None \<Rightarrow> Inr (False, h, b)
      | Some r \<Rightarrow>
          (let oldOrder = h r;
               h1 = h(fresh := Order_new orderId (ord_symbol oldOrder) (ord_side oldOrder)
                                 (ord_type oldOrder) newPrice newQuantity);
               (_, h2, b2) = OrderBook_cancelOrder h1 b orderId
           in case OrderBook_addOrder h2 b2 fresh of
                Inl e \<Rightarrow> Inl e
              | Inr (ok, b3) \<Rightarrow> Inr (ok, h2, b3)))"

definition getBestBid :: "OrderBook \<Rightarrow> Price option" where
  "getBestBid b = (case bids b of [] \<Rightarrow> None | (p, _) # _ \<Rightarrow> Some p)"

definition getBestAsk :: "OrderBook \<Rightarrow> Price option" where
  "getBestAsk b = (case asks b of [] \<Rightarrow> None | (p, _) # _ \<Rightarrow> Some p)"

record DepthLevel =
  depth_price :: Price
  depth_quantity :: Quantity
  depth_orderCount :: nat

definition depth_of :: "levels \<Rightarrow> nat \<Rightarrow> DepthLevel list" where
  "depth_of m n =
     map (\<lambda>(price, level). \<lparr> depth_price = price, depth_quantity = lvl_totalQuantity level,
                              depth_orderCount = getOrderCount level \<rparr>) (take n m)"

definition getBidDepth :: "OrderBook \<Rightarrow> nat \<Rightarrow> DepthLevel list" where
  "getBidDepth b n = depth_of (bids b) n"

definition getAskDepth :: "OrderBook \<Rightarrow> nat \<Rightarrow> DepthLevel list" where
  "getAskDepth b n = depth_of (asks b) n"

section \<open>Trade (core/trade.hpp)\<close>

record Trade =
  buyOrderId :: OrderId
  sellOrderId :: OrderId
  trade_symbol :: Symbol
  trade_price :: Price
  trade_quantity :: Quantity

text \<open>\<open>Trade::getValue\<close>: \<open>priceToDouble(price_) * quantity_\<close>.\<close>

definition Trade_getValue :: "'d fpops \<Rightarrow> Trade \<Rightarrow> 'd" where
  "Trade_getValue fp t = d_mul fp (priceToDouble fp (trade_price t)) (d_of_u64 fp (trade_quantity t))"

section \<open>MatchingEngine (engine/matching_engine.hpp)\<close>

record 'd MatchingStats =
  totalTrades :: "64 word"
  totalVolume :: "64 word"
  totalValue :: 'd
  marketOrdersMatched :: "64 word"
  limitOrdersMatched :: "64 word"

text \<open>
  The two callback slots are \<open>std::function\<close> objects that may be empty; a slot is modelled
  by whether it is set, and a call of a set slot is recorded, with its argument, in the
  list \<open>calls\<close> of the world. An order-update call records the pointer and the order as it
  is at that moment. The logger (\<open>LOG_ERROR\<close>, \<open>LOG_WARN\<close>) is not part of the state.
\<close>

datatype event = TradeCall Trade | OrderUpdateCall ref Order

record 'd MatchingEngine =
  orderBook :: OrderBook
  engine_symbol :: Symbol
  nextOrderId :: OrderId
  stats :: "'d MatchingStats"
  tradeCallback :: bool
  orderUpdateCallback :: bool

record 'd World =
  heap :: store
  engine :: "'d MatchingEngine"
  calls :: "event list"

definition MatchingEngine_new :: "'d fpops \<Rightarrow> Symbol \<Rightarrow> 'd MatchingEngine" where
  "MatchingEngine_new fp sy =
     \<lparr> orderBook = OrderBook_new sy, engine_symbol = sy, nextOrderId = 1,
       stats = \<lparr> totalTrades = 0, totalVolume = 0, totalValue = d_const fp 0,
                 marketOrdersMatched = 0, limitOrdersMatched = 0 \<rparr>,
       tradeCallback = False, orderUpdateCallback = False \<rparr>"

definition book :: "'d World \<Rightarrow> OrderBook" where
  "book w = orderBook (engine w)"

definition set_book :: "OrderBook \<Rightarrow> 'd World \<Rightarrow> 'd World" where
  "set_book b w = w\<lparr> engine := (engine w)\<lparr> orderBook := b \<rparr> \<rparr>"

definition set_stats :: "'d MatchingStats \<Rightarrow> 'd World \<Rightarrow> 'd World" where
  "set_stats st w = w\<lparr> engine := (engine w)\<lparr> stats := st \<rparr> \<rparr>"

definition call_orderUpdate :: "ref \<Rightarrow> 'd World \<Rightarrow> 'd World" where
  "call_orderUpdate r w =
     (if orderUpdateCallback (engine w) then w\<lparr> calls := calls w @ [OrderUpdateCall r (heap w r)] \<rparr>
      else w)"

definition call_trade :: "Trade \<Rightarrow> 'd World \<Rightarrow> 'd World" where
  "call_trade t w =
     (if tradeCallback (engine w) then w\<lparr> calls := calls w @ [TradeCall t] \<rparr> else w)"

text \<open>
  The two helpers that are to return the order at the head of the best level. Both
  return \<open>nullptr\<close> on every path.
\<close>

definition getBestBidOrder :: "'d World \<Rightarrow> ref option" where
  "getBestBidOrder w =
     (let bidDepth = getBidDepth (book w) 1 in if bidDepth = [] then None else None)"

definition getBestAskOrder :: "'d World \<Rightarrow> ref option" where
  "getBestAskOrder w =
     (let askDepth = getAskDepth (book w) 1 in if askDepth = [] then None else None)"

text \<open>
  The body the four matching loops share once a resting order has been obtained: the
  trade, the two fills, the removal of a resting order that is used up, the statistics,
  the order-update call for the resting order. \<open>aggressor\<close> says which of the two ids is the
  buyer's. It returns the new world, the new \<open>remaining\<close> and the trade.
\<close>

definition fill_step ::
  "'d fpops \<Rightarrow> 'd World \<Rightarrow> ref \<Rightarrow> ref \<Rightarrow> Price \<Rightarrow> Quantity \<Rightarrow> Side \<Rightarrow> 'd World \<times> Quantity \<times> Trade" where
  "fill_step fp w order resting tradePrice remaining aggressor =
     (let h = heap w;
          fillQty = min remaining (ord_remainingQuantity (h resting));
          trade = (if aggressor = BUY
                   then \<lparr> buyOrderId = ord_id (h order), sellOrderId = ord_id (h resting),
                          trade_symbol = engine_symbol (engine w), trade_price = tradePrice,
                          trade_quantity = fillQty \<rparr>
                   else \<lparr> buyOrderId = ord_id (h resting), sellOrderId = ord_id (h order),
                          trade_symbol = engine_symbol (engine w), trade_price = tradePrice,
                          trade_quantity = fillQty \<rparr>);
          h1 = h(order := fillQuantity fillQty (h order));
          h2 = h1(resting := fillQuantity fillQty (h1 resting));
          (h3, b3) = (if ord_remainingQuantity (h2 resting) = 0
                      then snd (OrderBook_cancelOrder h2 (book w) (ord_id (h2 resting)))
                      else (h2, book w));
          st = stats (engine w);
          st' = st\<lparr> totalTrades := totalTrades st + 1,
                    totalVolume := totalVolume st + fillQty,
                    totalValue := d_add fp (totalValue st) (Trade_getValue fp trade) \<rparr>;
          w' = call_orderUpdate resting (set_stats st' (set_book b3 (w\<lparr> heap := h3 \<rparr>)))
      in (w', remaining - fillQty, trade))"

subsection \<open>Market orders\<close>

function market_buy_level ::
  "'d fpops \<Rightarrow> 'd World \<Rightarrow> ref \<Rightarrow> Price \<Rightarrow> Quantity \<Rightarrow> Trade list \<Rightarrow> 'd World \<times> Quantity \<times> Trade list" where
  "market_buy_level fp w order levelPrice remaining trades =
     (if remaining > 0 then
        (case getBestAsk (book w) of
           None \<Rightarrow> (w, remaining, trades)
         | Some bestAsk \<Rightarrow>
             if bestAsk \<noteq> levelPrice then (w, remaining, trades)
             else (case getBestAskOrder w of
                     None \<Rightarrow> (w, remaining, trades)
                   | Some sellOrder \<Rightarrow>
                       (case fill_step fp w order sellOrder levelPrice remaining BUY of
                          (w', remaining', trade) \<Rightarrow>
                            market_buy_level fp w' order levelPrice remaining' (trades @ [trade]))))
      else (w, remaining, trades))"
  by pat_completeness auto
termination
  by (relation "{}") (simp_all add: getBestAskOrder_def)

fun market_buy_levels ::
  "'d fpops \<Rightarrow> 'd World \<Rightarrow> ref \<Rightarrow> Quantity \<Rightarrow> Trade list \<Rightarrow> DepthLevel list \<Rightarrow> 'd World \<times> Quantity \<times> Trade list" where
  "market_buy_levels fp w order remaining trades [] = (w, remaining, trades)"
| "market_buy_levels fp w order remaining trades (level # rest) =
     (if remaining = 0 then (w, remaining, trades)
      else (case market_buy_level fp w order (depth_price level) remaining trades of
              (w', remaining', trades') \<Rightarrow> market_buy_levels fp w' order remaining' trades' rest))"

definition matchMarketBuyOrder :: "'d fpops \<Rightarrow> 'd World \<Rightarrow> ref \<Rightarrow> 'd World \<times> Trade list" where
  "matchMarketBuyOrder fp w order =
     (let remaining = ord_remainingQuantity (heap w order);
          askDepth = getAskDepth (book w) 100
      in case market_buy_levels fp w order remaining [] askDepth of
           (w', remaining', trades) \<Rightarrow> (call_orderUpdate order w', trades))"

function market_sell_level ::
  "'d fpops \<Rightarrow> 'd World \<Rightarrow> ref \<Rightarrow> Price \<Rightarrow> Quantity \<Rightarrow> Trade list \<Rightarrow> 'd World \<times> Quantity \<times> Trade list" where
  "market_sell_level fp w order levelPrice remaining trades =
     (if remaining > 0 then
        (case getBestBid (book w) of
           None \<Rightarrow> (w, remaining, trades)
         | Some bestBid \<Rightarrow>
             if bestBid \<noteq> levelPrice then (w, remaining, trades)
             else (case getBestBidOrder w of
                     None \<Rightarrow> (w, remaining, trades)
                   | Some buyOrder \<Rightarrow>
                       (case fill_step fp w order buyOrder levelPrice remaining SELL of
                          (w', remaining', trade) \<Rightarrow>
                            market_sell_level fp w' order levelPrice remaining' (trades @ [trade]))))
      else (w, remaining, trades))"
  by pat_completeness auto
termination
  by (relation "{}") (simp_all add: getBestBidOrder_def)

fun market_sell_levels ::
  "'d fpops \<Rightarrow> 'd World \<Rightarrow> ref \<Rightarrow> Quantity \<Rightarrow> Trade list \<Rightarrow> DepthLevel list \<Rightarrow> 'd World \<times> Quantity \<times> Trade list" where
  "market_sell_levels fp w order remaining trades [] = (w, remaining, trades)"
| "market_sell_levels fp w order remaining trades (level # rest) =
     (if remaining = 0 then (w, remaining, trades)
      else (case market_sell_level fp w order (depth_price level) remaining trades of
              (w', remaining', trades') \<Rightarrow> market_sell_levels fp w' order remaining' trades' rest))"

definition matchMarketSellOrder :: "'d fpops \<Rightarrow> 'd World \<Rightarrow> ref \<Rightarrow> 'd World \<times> Trade list" where
  "matchMarketSellOrder fp w order =
     (let remaining = ord_remainingQuantity (heap w order);
          bidDepth = getBidDepth (book w) 100
      in case market_sell_levels fp w order remaining [] bidDepth of
           (w', remaining', trades) \<Rightarrow> (call_orderUpdate order w', trades))"

definition bump_market :: "'d World \<Rightarrow> 'd World" where
  "bump_market w =
     set_stats ((stats (engine w))\<lparr> marketOrdersMatched := marketOrdersMatched (stats (engine w)) + 1 \<rparr>) w"

definition matchMarketOrder :: "'d fpops \<Rightarrow> 'd World \<Rightarrow> ref \<Rightarrow> 'd World \<times> Trade list" where
  "matchMarketOrder fp w order =
     (case (if ord_side (heap w order) = BUY then matchMarketBuyOrder fp w order
            else matchMarketSellOrder fp w order) of
        (w', trades) \<Rightarrow> (bump_market w', trades))"

subsection \<open>Limit orders\<close>

function limit_buy_loop ::
  "'d fpops \<Rightarrow> 'd World \<Rightarrow> ref \<Rightarrow> Price \<Rightarrow> Quantity \<Rightarrow> Trade list \<Rightarrow> 'd World \<times> Trade list" where
  "limit_buy_loop fp w order limitPrice remaining trades =
     (if remaining > 0 then
        (case getBestAsk (book w) of
           None \<Rightarrow> (w, trades)
         | Some bestAsk \<Rightarrow>
             if sint bestAsk > sint limitPrice then (w, trades)
             else (case getBestAskOrder w of
                     None \<Rightarrow> (w, trades)
                   | Some sellOrder \<Rightarrow>
                       (case fill_step fp w order sellOrder bestAsk remaining BUY of
                          (w', remaining', trade) \<Rightarrow>
                            limit_buy_loop fp w' order limitPrice remaining' (trades @ [trade]))))
      else (w, trades))"
  by pat_completeness auto
termination
  by (relation "{}") (simp_all add: getBestAskOrder_def)

definition matchLimitBuyOrder :: "'d fpops \<Rightarrow> 'd World \<Rightarrow> ref \<Rightarrow> 'd World \<times> Trade list" where
  "matchLimitBuyOrder fp w order =
     (let remaining = ord_remainingQuantity (heap w order);
          limitPrice = ord_price (heap w order)
      in case limit_buy_loop fp w order limitPrice remaining [] of
           (w', trades) \<Rightarrow> (call_orderUpdate order w', trades))"

function limit_sell_loop ::
  "'d fpops \<Rightarrow> 'd World \<Rightarrow> ref \<Rightarrow> Price \<Rightarrow> Quantity \<Rightarrow> Trade list \<Rightarrow> 'd World \<times> Trade list" where
  "limit_sell_loop fp w order limitPrice remaining trades =
     (if remaining > 0 then
        (case getBestBid (book w) of
           None \<Rightarrow> (w, trades)
         | Some bestBid \<Rightarrow>
             if sint bestBid < sint limitPrice then (w, trades)
             else (case getBestBidOrder w of
                     None \<Rightarrow> (w, trades)
                   | Some buyOrder \<Rightarrow>
                       (case fill_step fp w order buyOrder bestBid remaining SELL of
                          (w', remaining', trade) \<Rightarrow>
                            limit_sell_loop fp w' order limitPrice remaining' (trades @ [trade]))))
      else (w, trades))"
  by pat_completeness auto
termination
  by (relation "{}") (simp_all add: getBestBidOrder_def)

definition matchLimitSellOrder :: "'d fpops \<Rightarrow> 'd World \<Rightarrow> ref \<Rightarrow> 'd World \<times> Trade list" where
  "matchLimitSellOrder fp w order =
     (let remaining = ord_remainingQuantity (heap w order);
          limitPrice = ord_price (heap w order)
      in case limit_sell_loop fp w order limitPrice remaining [] of
           (w', trades) \<Rightarrow> (call_orderUpdate order w', trades))"

definition bump_limit :: "'d World \<Rightarrow> 'd World" where
  "bump_limit w =
     set_stats ((stats (engine w))\<lparr> limitOrdersMatched := limitOrdersMatched (stats (engine w)) + 1 \<rparr>) w"

text \<open>\<open>matchLimitOrder\<close>: what is left of the order goes to the book; the result of
  \<open>addOrder\<close> is not looked at.\<close>

definition matchLimitOrder :: "'d fpops \<Rightarrow> 'd World \<Rightarrow> ref \<Rightarrow> exn + ('d World \<times> Trade list)" where
  "matchLimitOrder fp w order =
     (case (if ord_side (heap w order) = BUY then matchLimitBuyOrder fp w order
            else matchLimitSellOrder fp w order) of
        (w', trades) \<Rightarrow>
          if ord_remainingQuantity (heap w' order) > 0
          then (case OrderBook_addOrder (heap w') (book w') order of
                  Inl e \<Rightarrow> Inl e
                | Inr (_, b) \<Rightarrow> Inr (bump_limit (set_book b w'), trades))
          else Inr (bump_limit w', trades))"

subsection \<open>The public operations\<close>

definition submitOrder :: "'d fpops \<Rightarrow> 'd World \<Rightarrow> ref \<Rightarrow> exn + (Trade list \<times> 'd World)" where
  "submitOrder fp w order =
     (if ord_symbol (heap w order) \<noteq> engine_symbol (engine w) then Inr ([], w)
      else case (if ord_type (heap w order) = MARKET then Inr (matchMarketOrder fp w order)
                 else if ord_type (heap w order) = LIMIT then matchLimitOrder fp w order
                 else Inr (w, [])) of
             Inl e \<Rightarrow> Inl e
           | Inr (w', trades) \<Rightarrow> Inr (trades, fold call_trade trades w'))"

definition cancelOrder :: "'d World \<Rightarrow> OrderId \<Rightarrow> bool \<times> 'd World" where
  "cancelOrder w orderId =
     (case OrderBook_cancelOrder (heap w) (book w) orderId of
        (ok, h, b) \<Rightarrow> (ok, set_book b (w\<lparr> heap := h \<rparr>)))"

definition modifyOrder :: "'d World \<Rightarrow> ref \<Rightarrow> OrderId \<Rightarrow> Price \<Rightarrow> Quantity \<Rightarrow> exn + (bool \<times> 'd World)" where
  "modifyOrder w fresh orderId newPrice newQuantity =
     (case OrderBook_modifyOrder (heap w) (book w) fresh orderId newPrice newQuantity of
        Inl e \<Rightarrow> Inl e
      | Inr (ok, h, b) \<Rightarrow> Inr (ok, set_book b (w\<lparr> heap := h \<rparr>)))"

section \<open>RiskManager (risk/risk_manager.hpp)\<close>

record 'd Position =
  symbol :: Symbol
  quantity :: "64 word"
  averagePrice :: 'd
  realizedPnL :: 'd
  unrealizedPnL :: 'd
  totalBought :: Quantity
  totalSold :: Quantity

definition Position_new :: "'d fpops \<Rightarrow> 'd Position" where
  "Position_new fp =
     \<lparr> symbol = [], quantity = 0, averagePrice = d_const fp 0, realizedPnL = d_const fp 0,
       unrealizedPnL = d_const fp 0, totalBought = 0, totalSold = 0 \<rparr>"

record 'd RiskLimits =
  maxOrderSize :: Quantity
  maxOrderValue :: 'd
  maxPositionSize :: "64 word"
  maxPositionValue :: 'd
  maxDailyLoss :: 'd
  maxDrawdown :: 'd
  maxOrdersPerSecond :: "32 word"

definition RiskLimits_new :: "'d fpops \<Rightarrow> 'd RiskLimits" where
  "RiskLimits_new fp =
     \<lparr> maxOrderSize = 10000, maxOrderValue = d_const fp 1000000, maxPositionSize = 50000,
       maxPositionValue = d_const fp 5000000, maxDailyLoss = d_const fp 100000,
       maxDrawdown = d_const fp 200000, maxOrdersPerSecond = 100 \<rparr>"

text \<open>
  \<open>positions_\<close> is a \<open>std::unordered_map<Symbol, Position>\<close>: a list of pairs, one for each
  key; the place of a new key in the iteration order is not fixed by the container and is
  taken to be the end.
\<close>

record 'd RiskManager =
  limits :: "'d RiskLimits"
  positions :: "(Symbol \<times> 'd Position) list"
  dailyPnL :: 'd
  peakEquity :: 'd
  currentEquity :: 'd

definition RiskManager_new :: "'d fpops \<Rightarrow> 'd RiskLimits \<Rightarrow> 'd RiskManager" where
  "RiskManager_new fp lims =
     \<lparr> limits = lims, positions = [], dailyPnL = d_const fp 0, peakEquity = d_const fp 0,
       currentEquity = d_const fp 0 \<rparr>"

datatype ValidationResult =
    ACCEPTED
  | REJECTED_ORDER_SIZE
  | REJECTED_ORDER_VALUE
  | REJECTED_POSITION_LIMIT
  | REJECTED_POSITION_VALUE
  | REJECTED_DAILY_LOSS
  | REJECTED_DRAWDOWN
  | REJECTED_RATE_LIMIT

text \<open>\<open>positions_[sym]\<close>: the entry of the key, default-constructed and inserted when the
  key is not there. It returns the entry and the table.\<close>

definition positions_index ::
  "'d fpops \<Rightarrow> (Symbol \<times> 'd Position) list \<Rightarrow> Symbol \<Rightarrow> 'd Position \<times> (Symbol \<times> 'd Position) list" where
  "positions_index fp ps sy =
     (case map_of ps sy of
        Some p \<Rightarrow> (p, ps)
      | None \<Rightarrow> (Position_new fp, ps @ [(sy, Position_new fp)]))"

text \<open>\<open>std::abs\<close> on \<open>int64_t\<close>; at the least value, where C++ leaves it undefined, this is
  the two's complement negation.\<close>

definition abs64 :: "64 word \<Rightarrow> 64 word" where
  "abs64 x = (if sint x < 0 then - x else x)"

text \<open>\<open>std::min\<close> on \<open>int64_t\<close>: the second argument when it is less, else the first.\<close>

definition min64 :: "64 word \<Rightarrow> 64 word \<Rightarrow> 64 word" where
  "min64 a b = (if sint b < sint a then b else a)"

definition validateOrder ::
  "'d fpops \<Rightarrow> 'd RiskManager \<Rightarrow> Order \<Rightarrow> 'd \<Rightarrow> ValidationResult \<times> 'd RiskManager" where
  "validateOrder fp rm order currentPrice =
     (if ord_quantity order > maxOrderSize (limits rm) then (REJECTED_ORDER_SIZE, rm)
      else
        let orderPrice = (if ord_type order = MARKET then currentPrice
                          else priceToDouble fp (ord_price order));
            orderValue = d_mul fp (d_of_u64 fp (ord_quantity order)) orderPrice
        in if d_less fp (maxOrderValue (limits rm)) orderValue then (REJECTED_ORDER_VALUE, rm)
           else
             let (position, ps) = positions_index fp (positions rm) (ord_symbol order);
                 rm' = rm\<lparr> positions := ps \<rparr>;
                 newQuantity = (if ord_side order = BUY then quantity position + ord_quantity order
                                else quantity position - ord_quantity order)
             in if sint (abs64 newQuantity) > sint (maxPositionSize (limits rm))
                then (REJECTED_POSITION_LIMIT, rm')
                else
                  let newPositionValue = d_mul fp (d_of_i64 fp (abs64 newQuantity)) orderPrice
                  in if d_less fp (maxPositionValue (limits rm)) newPositionValue
                     then (REJECTED_POSITION_VALUE, rm')
                     else if d_less fp (dailyPnL rm) (d_neg fp (maxDailyLoss (limits rm)))
                     then (REJECTED_DAILY_LOSS, rm')
                     else
                       let drawdown = d_sub fp (peakEquity rm) (currentEquity rm)
                       in if d_less fp (maxDrawdown (limits rm)) drawdown
                          then (REJECTED_DRAWDOWN, rm')
                          else (ACCEPTED, rm'))"

text \<open>The part of \<open>updatePosition\<close> that works on the position of the trade's symbol; it
  returns the position and the profit to add to \<open>dailyPnL_\<close> (none on the opening branches).\<close>

definition apply_buy :: "'d fpops \<Rightarrow> 'd Position \<Rightarrow> 'd \<Rightarrow> Quantity \<Rightarrow> 'd Position \<times> 'd option" where
  "apply_buy fp position tradePrice tradeQty =
     (let p = position\<lparr> totalBought := totalBought position + tradeQty \<rparr>
      in if sint (quantity p) \<ge> 0
         then (p\<lparr> averagePrice :=
                     d_div fp (d_add fp (d_mul fp (d_of_i64 fp (quantity p)) (averagePrice p))
                                        (d_mul fp (d_of_u64 fp tradeQty) tradePrice))
                              (d_of_u64 fp (quantity p + tradeQty)),
                  quantity := quantity p + tradeQty \<rparr>, None)
         else
           let closingQty = min64 tradeQty (abs64 (quantity p));
               pnl = d_mul fp (d_of_i64 fp closingQty) (d_sub fp (averagePrice p) tradePrice);
               p1 = p\<lparr> realizedPnL := d_add fp (realizedPnL p) pnl,
                       quantity := quantity p + tradeQty \<rparr>
           in ((if sint (quantity p1) > 0 then p1\<lparr> averagePrice := tradePrice \<rparr> else p1), Some pnl))"

definition apply_sell :: "'d fpops \<Rightarrow> 'd Position \<Rightarrow> 'd \<Rightarrow> Quantity \<Rightarrow> 'd Position \<times> 'd option" where
  "apply_sell fp position tradePrice tradeQty =
     (let p = position\<lparr> totalSold := totalSold position + tradeQty \<rparr>
      in if sint (quantity p) \<le> 0
         then (p\<lparr> averagePrice :=
                     d_div fp (d_add fp (d_mul fp (d_of_i64 fp (abs64 (quantity p))) (averagePrice p))
                                        (d_mul fp (d_of_u64 fp tradeQty) tradePrice))
                              (d_of_u64 fp (abs64 (quantity p) + tradeQty)),
                  quantity := quantity p - tradeQty \<rparr>, None)
         else
           let closingQty = min64 tradeQty (quantity p);
               pnl = d_mul fp (d_of_i64 fp closingQty) (d_sub fp tradePrice (averagePrice p));
               p1 = p\<lparr> realizedPnL := d_add fp (realizedPnL p) pnl,
                       quantity := quantity p - tradeQty \<rparr>
           in ((if sint (quantity p1) < 0 then p1\<lparr> averagePrice := tradePrice \<rparr> else p1), Some pnl))"

definition updatePosition :: "'d fpops \<Rightarrow> 'd RiskManager \<Rightarrow> Trade \<Rightarrow> Side \<Rightarrow> 'd RiskManager" where
  "updatePosition fp rm trade aggressorSide =
     (let sy = trade_symbol trade;
          (position0, ps) = positions_index fp (positions rm) sy;
          position = (if symbol position0 = [] then position0\<lparr> symbol := sy \<rparr> else position0);
          tradePrice = priceToDouble fp (trade_price trade);
          tradeQty = trade_quantity trade;
          (position', pnl) = (if aggressorSide = BUY then apply_buy fp position tradePrice tradeQty
                              else apply_sell fp position tradePrice tradeQty);
          daily = (case pnl of None \<Rightarrow> dailyPnL rm | Some x \<Rightarrow> d_add fp (dailyPnL rm) x);
          ps' = map_assign sy position' ps;
          equity = fold (\<lambda>(_, pos) e. d_add fp e (unrealizedPnL pos)) ps' daily
      in rm\<lparr> positions := ps', dailyPnL := daily, currentEquity := equity,
              peakEquity := (if d_less fp (peakEquity rm) equity then equity else peakEquity rm) \<rparr>)"

text \<open>\<open>getPosition\<close>: the entry of the symbol, or a flat default position.\<close>

definition getPosition :: "'d fpops \<Rightarrow> 'd RiskManager \<Rightarrow> Symbol \<Rightarrow> 'd Position" where
  "getPosition fp rm sy = (case map_of (positions rm) sy of Some p \<Rightarrow> p | None \<Rightarrow> Position_new fp)"

text \<open>The position \<open>updatePosition\<close> works on: the entry of the symbol (a default one when
  there is none), with its \<open>symbol\<close> member filled in when that is empty.\<close>

definition entry :: "'d fpops \<Rightarrow> 'd RiskManager \<Rightarrow> Symbol \<Rightarrow> 'd Position" where
  "entry fp rm sy =
     (if symbol (getPosition fp rm sy) = [] then (getPosition fp rm sy)\<lparr> symbol := sy \<rparr>
      else getPosition fp rm sy)"

section \<open>Predicates on the book and on the risk state\<close>

text \<open>The pointers queued in the levels of one side, and in the whole book.\<close>

definition level_refs :: "levels \<Rightarrow> ref list" where
  "level_refs m = concat (map (\<lambda>(k, l). lvl_orders l) m)"

definition book_refs :: "OrderBook \<Rightarrow> ref list" where
  "book_refs b = level_refs (bids b) @ level_refs (asks b)"

text \<open>The book holds an order with a given id: in the id index, or queued in a level.\<close>

definition book_has_id :: "store \<Rightarrow> OrderBook \<Rightarrow> OrderId \<Rightarrow> bool" where
  "book_has_id h b orderId =
     (case orderMap b orderId of
        Some _ \<Rightarrow> True
      | None \<Rightarrow> list_ex (\<lambda>r. ord_id (h r) = orderId) (book_refs b))"

text \<open>The book is not crossed: with both sides non-empty, best bid below best ask.\<close>

definition non_crossed :: "OrderBook \<Rightarrow> bool" where
  "non_crossed b =
     (case getBestBid b of
        None \<Rightarrow> True
      | Some bid \<Rightarrow> (case getBestAsk b of None \<Rightarrow> True | Some ask \<Rightarrow> sint bid < sint ask))"

text \<open>The sum of the remaining quantities of the orders queued at a level, in
  \<open>Quantity\<close> arithmetic, and the agreement of every cached total with it.\<close>

definition level_sum :: "store \<Rightarrow> PriceLevel \<Rightarrow> Quantity" where
  "level_sum h l = sum_list (map (\<lambda>r. ord_remainingQuantity (h r)) (lvl_orders l))"

definition totals_consistent :: "store \<Rightarrow> OrderBook \<Rightarrow> bool" where
  "totals_consistent h b =
     list_all (\<lambda>(k, l). lvl_totalQuantity l = level_sum h l) (bids b @ asks b)"

text \<open>
  The book is well formed for a store: the keys of each side are distinct (they are the
  keys of a \<open>std::map\<close>), every level sits under its own price, every queued order is
  queued at its own price on its own side and is the order the id index has for its id,
  no pointer is queued twice, and the id index has every order under the order's own id.
\<close>

definition side_ok :: "store \<Rightarrow> OrderBook \<Rightarrow> Side \<Rightarrow> levels \<Rightarrow> bool" where
  "side_ok h b sd m =
     (distinct (map fst m) \<and>
      (\<forall>(k, l) \<in> set m. lvl_price l = k \<and> (\<forall>r \<in> set (lvl_orders l).
         ord_price (h r) = k \<and> ord_side (h r) = sd \<and> orderMap b (ord_id (h r)) = Some r)))"

definition book_ok :: "store \<Rightarrow> OrderBook \<Rightarrow> bool" where
  "book_ok h b =
     (side_ok h b BUY (bids b) \<and> side_ok h b SELL (asks b) \<and> distinct (book_refs b) \<and>
      (\<forall>orderId r. orderMap b orderId = Some r \<longrightarrow> ord_id (h r) = orderId))"







section \<open>Scenarios\<close>

text \<open>A fresh engine for the symbol AAPL, no callback set, over a given store of orders.\<close>

definition fresh_world :: "store \<Rightarrow> real World" where
  "fresh_world h = \<lparr> heap = h, engine = MatchingEngine_new exact_fp ''AAPL'', calls = [] \<rparr>"

text \<open>A sequence of calls of the three public operations; the results of the calls are
  dropped, an exception ends the run.\<close>

datatype op = Submit ref | Cancel OrderId | Modify ref OrderId Price Quantity

fun apply_op :: "'d fpops \<Rightarrow> 'd World \<Rightarrow> op \<Rightarrow> exn + 'd World" where
  "apply_op fp w (Submit order) =
     (case submitOrder fp w order of Inl e \<Rightarrow> Inl e | Inr (_, w') \<Rightarrow> Inr w')"
| "apply_op fp w (Cancel orderId) = Inr (snd (cancelOrder w orderId))"
| "apply_op fp w (Modify fresh orderId newPrice newQuantity) =
     (case modifyOrder w fresh orderId newPrice newQuantity of
        Inl e \<Rightarrow> Inl e | Inr (_, w') \<Rightarrow> Inr w')"

fun run_ops :: "'d fpops \<Rightarrow> 'd World \<Rightarrow> op list \<Rightarrow> exn + 'd World" where
  "run_ops fp w [] = Inr w"
| "run_ops fp w (x # xs) =
     (case apply_op fp w x of Inl e \<Rightarrow> Inl e | Inr w' \<Rightarrow> run_ops fp w' xs)"

text \<open>
  \<open>unreferenced b a\<close>: the book holds no pointer to the address \<open>a\<close>, as for the
  address of an object that \<open>std::make_shared\<close> has just created. \<open>ops_fresh\<close>: along a
  run, the address that each \<open>Modify\<close> names for its new order is unreferenced when the
  operation starts.
\<close>

definition unreferenced :: "OrderBook \<Rightarrow> ref \<Rightarrow> bool" where
  "unreferenced b a = (a \<notin> set (book_refs b) \<and> (\<forall>i. orderMap b i \<noteq> Some a))"

fun op_fresh :: "'d World \<Rightarrow> op \<Rightarrow> bool" where
  "op_fresh w (Modify fresh orderId newPrice newQuantity) = unreferenced (book w) fresh"
| "op_fresh w x = True"

fun ops_fresh :: "'d fpops \<Rightarrow> 'd World \<Rightarrow> op list \<Rightarrow> bool" where
  "ops_fresh fp w [] = True"
| "ops_fresh fp w (x # xs) =
     (op_fresh w x \<and> (case apply_op fp w x of Inl e \<Rightarrow> True | Inr w' \<Rightarrow> ops_fresh fp w' xs))"

text \<open>Scenario 1 of the specification: SELL LIMIT 150.00 x 100 with id 1 at address 0,
  BUY LIMIT 150.00 x 100 with id 2 at address 1.\<close>

definition cross_store :: store where
  "cross_store = (\<lambda>_. Order_new 1 ''AAPL'' SELL LIMIT 15000 100)
                   (1 := Order_new 2 ''AAPL'' BUY LIMIT 15000 100)"

text \<open>Two sell orders at one price: SELL LIMIT 150.00 x 100 with id 1 at address 0,
  SELL LIMIT 150.00 x 50 with id 2 at address 1.\<close>

definition two_sells_store :: store where
  "two_sells_store = (\<lambda>_. Order_new 1 ''AAPL'' SELL LIMIT 15000 100)
                       (1 := Order_new 2 ''AAPL'' SELL LIMIT 15000 50)"

text \<open>A book in which SELL LIMIT 150.00 x 100 with id 1 (address 0) rests, and a market
  order to buy 100 with id 2 at address 1.\<close>

definition market_store :: store where
  "market_store = (\<lambda>_. Order_new 1 ''AAPL'' SELL LIMIT 15000 100)
                    (1 := Order_market 2 ''AAPL'' BUY 100)"

definition resting_ask_book :: OrderBook where
  "resting_ask_book =
     \<lparr> book_symbol = ''AAPL'', bids = [],
       asks = [(15000, \<lparr> lvl_price = 15000, lvl_totalQuantity = 100, lvl_orders = [0] \<rparr>)],
       orderMap = [1 \<mapsto> 0] \<rparr>"

definition resting_ask_world :: "real World" where
  "resting_ask_world = set_book resting_ask_book (fresh_world market_store)"


definition small_buy :: Order where
  "small_buy = Order_new 1 ''AAPL'' BUY LIMIT 15000 100"



section \<open>The matching loops never obtain a resting order\<close>

lemma getBestAskOrder_None: "getBestAskOrder w = None"
  by (simp add: getBestAskOrder_def)

lemma getBestBidOrder_None: "getBestBidOrder w = None"
  by (simp add: getBestBidOrder_def)

lemma limit_buy_loop_idle: "limit_buy_loop fp w order limitPrice remaining trades = (w, trades)"
  by (simp add: getBestAskOrder_None split: option.split)

lemma limit_sell_loop_idle: "limit_sell_loop fp w order limitPrice remaining trades = (w, trades)"
  by (simp add: getBestBidOrder_None split: option.split)

lemma market_buy_level_idle:
  "market_buy_level fp w order levelPrice remaining trades = (w, remaining, trades)"
  by (simp add: getBestAskOrder_None split: option.split)

lemma market_sell_level_idle:
  "market_sell_level fp w order levelPrice remaining trades = (w, remaining, trades)"
  by (simp add: getBestBidOrder_None split: option.split)

lemma market_buy_levels_idle:
  "market_buy_levels fp w order remaining trades depth = (w, remaining, trades)"
  by (induction depth) (simp_all add: market_buy_level_idle del: market_buy_level.simps)

lemma market_sell_levels_idle:
  "market_sell_levels fp w order remaining trades depth = (w, remaining, trades)"
  by (induction depth) (simp_all add: market_sell_level_idle del: market_sell_level.simps)

lemma matchMarketOrder_idle:
  "matchMarketOrder fp w order = (bump_market (call_orderUpdate order w), [])"
  by (simp add: matchMarketOrder_def matchMarketBuyOrder_def matchMarketSellOrder_def
      market_buy_levels_idle market_sell_levels_idle)

lemma heap_call_orderUpdate: "heap (call_orderUpdate r w) = heap w"
  by (simp add: call_orderUpdate_def)

lemma book_call_orderUpdate: "book (call_orderUpdate r w) = book w"
  by (simp add: call_orderUpdate_def book_def)

lemma heap_bump_market: "heap (bump_market w) = heap w"
  by (simp add: bump_market_def set_stats_def)

lemma book_bump_market: "book (bump_market w) = book w"
  by (simp add: bump_market_def set_stats_def book_def)

lemma matchLimitOrder_idle:
  "matchLimitOrder fp w order =
     (if ord_remainingQuantity (heap w order) > 0
      then (case OrderBook_addOrder (heap w) (book w) order of
              Inl e \<Rightarrow> Inl e
            | Inr (ok, b) \<Rightarrow> Inr (bump_limit (set_book b (call_orderUpdate order w)), []))
      else Inr (bump_limit (call_orderUpdate order w), []))"
  by (simp add: matchLimitOrder_def matchLimitBuyOrder_def matchLimitSellOrder_def
      limit_buy_loop_idle limit_sell_loop_idle heap_call_orderUpdate book_call_orderUpdate
      del: limit_buy_loop.simps limit_sell_loop.simps)

lemma submitOrder_market:
  "ord_type (heap w order) = MARKET \<Longrightarrow>
   submitOrder fp w order =
     (if ord_symbol (heap w order) \<noteq> engine_symbol (engine w) then Inr ([], w)
      else Inr ([], bump_market (call_orderUpdate order w)))"
  by (simp add: submitOrder_def matchMarketOrder_idle)

lemma submitOrder_limit:
  "ord_type (heap w order) = LIMIT \<Longrightarrow> ord_symbol (heap w order) = engine_symbol (engine w) \<Longrightarrow>
   submitOrder fp w order =
     (if ord_remainingQuantity (heap w order) > 0
      then (case OrderBook_addOrder (heap w) (book w) order of
              Inl e \<Rightarrow> Inl e
            | Inr (ok, b) \<Rightarrow> Inr ([], bump_limit (set_book b (call_orderUpdate order w))))
      else Inr ([], bump_limit (call_orderUpdate order w)))"
  by (simp add: submitOrder_def matchLimitOrder_idle split: sum.split)

lemmas book_defs = OrderBook_addOrder_def addToBidSide_def addToAskSide_def add_to_side_def
  map_find_def PriceLevel_addOrder_def PriceLevel_new_def OrderBook_new_def
  OrderBook_cancelOrder_def removeFromBidSide_def removeFromAskSide_def remove_from_side_def
  PriceLevel_removeOrder_def isEmpty_def cancel_def price_less_def price_greater_def

lemmas world_defs = book_def set_book_def set_stats_def bump_limit_def bump_market_def
  call_orderUpdate_def call_trade_def MatchingEngine_new_def fresh_world_def

section \<open>Orders for another symbol\<close>

text \<open>
  Claim C8. For every order whose symbol differs from the engine's configured symbol,
  \<open>submitOrder\<close> returns the empty trade list and leaves the whole world as it was: the
  order book, the matching statistics, the submitted order and every other order object,
  and the record of callback calls (no callback fires).
\<close>

theorem submitOrder_symbol_mismatch:
  "ord_symbol (heap w order) \<noteq> engine_symbol (engine w) \<Longrightarrow> submitOrder fp w order = Inr ([], w)"
  by (simp add: submitOrder_def)

theorem submitOrder_symbol_mismatch_witness:
  "ord_symbol (heap (fresh_world (\<lambda>_. Order_new 7 ''MSFT'' BUY LIMIT 15000 100)) 0)
     \<noteq> engine_symbol (engine (fresh_world (\<lambda>_. Order_new 7 ''MSFT'' BUY LIMIT 15000 100)))
   \<and> submitOrder exact_fp (fresh_world (\<lambda>_. Order_new 7 ''MSFT'' BUY LIMIT 15000 100)) 0
       = Inr ([], fresh_world (\<lambda>_. Order_new 7 ''MSFT'' BUY LIMIT 15000 100))"
proof -
  let ?w = "fresh_world (\<lambda>_. Order_new 7 ''MSFT'' BUY LIMIT 15000 100)"
  have h: "ord_symbol (heap ?w 0) \<noteq> engine_symbol (engine ?w)"
    by (simp add: fresh_world_def Order_new_def MatchingEngine_new_def)
  from h submitOrder_symbol_mismatch [OF h, of exact_fp] show ?thesis
    by simp
qed

section \<open>Reserved order types\<close>

text \<open>
  Claim C10. For every order whose type is \<open>STOP\<close> or \<open>STOP_LIMIT\<close>, \<open>submitOrder\<close> returns
  the empty trade list and changes nothing: the dispatch handles \<open>MARKET\<close> and \<open>LIMIT\<close>
  only, so no matching is done, the order is not put into the book, and the book and the
  matching statistics stay as they were.
\<close>

theorem submitOrder_stop_no_effect:
  "ord_type (heap w order) = STOP \<or> ord_type (heap w order) = STOP_LIMIT \<Longrightarrow>
   submitOrder fp w order = Inr ([], w)"
  by (auto simp add: submitOrder_def)

theorem submitOrder_stop_no_effect_witness:
  "(ord_type (heap (fresh_world (\<lambda>_. Order_new 7 ''AAPL'' BUY STOP 15000 100)) 0) = STOP
    \<or> ord_type (heap (fresh_world (\<lambda>_. Order_new 7 ''AAPL'' BUY STOP 15000 100)) 0) = STOP_LIMIT)
   \<and> submitOrder exact_fp (fresh_world (\<lambda>_. Order_new 7 ''AAPL'' BUY STOP 15000 100)) 0
       = Inr ([], fresh_world (\<lambda>_. Order_new 7 ''AAPL'' BUY STOP 15000 100))
   \<and> ord_symbol (heap (fresh_world (\<lambda>_. Order_new 7 ''AAPL'' BUY STOP 15000 100)) 0)
       = engine_symbol (engine (fresh_world (\<lambda>_. Order_new 7 ''AAPL'' BUY STOP 15000 100)))"
proof -
  let ?w = "fresh_world (\<lambda>_. Order_new 7 ''AAPL'' BUY STOP 15000 100)"
  have h: "ord_type (heap ?w 0) = STOP \<or> ord_type (heap ?w 0) = STOP_LIMIT"
    by (simp add: fresh_world_def Order_new_def)
  have s: "ord_symbol (heap ?w 0) = engine_symbol (engine ?w)"
    by (simp add: fresh_world_def Order_new_def MatchingEngine_new_def)
  from h s submitOrder_stop_no_effect [OF h, of exact_fp] show ?thesis
    by simp
qed

section \<open>Market orders\<close>

text \<open>
  Claim C9. For every \<open>MARKET\<close> order, \<open>submitOrder\<close> returns normally and never puts the
  aggressor into the book: the book and every order object are as before the call, so the
  pointer of the aggressor is queued in no level if it was not before, the book holds no
  order with the aggressor's id if it held none before, and what is left unfilled of the
  order is not rested.
\<close>

theorem submitOrder_market_never_rests:
  "ord_type (heap w order) = MARKET \<Longrightarrow>
   (case submitOrder fp w order of
      Inl e \<Rightarrow> False
    | Inr (trades, w') \<Rightarrow>
        book w' = book w \<and> heap w' = heap w \<and>
        (order \<notin> set (book_refs (book w)) \<longrightarrow> order \<notin> set (book_refs (book w'))) \<and>
        (\<not> book_has_id (heap w) (book w) (ord_id (heap w order)) \<longrightarrow>
           \<not> book_has_id (heap w') (book w') (ord_id (heap w' order))))"
  by (simp add: submitOrder_market heap_bump_market book_bump_market
      heap_call_orderUpdate book_call_orderUpdate)

theorem submitOrder_market_never_rests_witness:
  "ord_type (heap resting_ask_world 1) = MARKET \<and>
   1 \<notin> set (book_refs (book resting_ask_world)) \<and>
   \<not> book_has_id (heap resting_ask_world) (book resting_ask_world) (ord_id (heap resting_ask_world 1)) \<and>
   (case submitOrder exact_fp resting_ask_world 1 of
      Inl e \<Rightarrow> False
    | Inr (trades, w') \<Rightarrow>
        book w' = resting_ask_book \<and> 1 \<notin> set (book_refs (book w')) \<and>
        \<not> book_has_id (heap w') (book w') 2 \<and> ord_remainingQuantity (heap w' 1) = 100)"
proof -
  have t: "ord_type (heap resting_ask_world 1) = MARKET"
    by (simp add: resting_ask_world_def set_book_def fresh_world_def market_store_def Order_market_def)
  have b: "book resting_ask_world = resting_ask_book"
    by (simp add: resting_ask_world_def set_book_def book_def)
  have h: "heap resting_ask_world = market_store"
    by (simp add: resting_ask_world_def set_book_def fresh_world_def)
  have i: "ord_id (market_store (Suc 0)) = 2" "ord_id (market_store 0) = 1"
    "ord_remainingQuantity (market_store (Suc 0)) = 100"
    by (simp_all add: market_store_def Order_market_def Order_new_def)
  have r: "book_refs resting_ask_book = [0]"
    by (simp add: book_refs_def level_refs_def resting_ask_book_def)
  have m: "orderMap resting_ask_book 2 = None"
    by (simp add: resting_ask_book_def)
  have n: "\<not> book_has_id market_store resting_ask_book 2"
    by (simp add: book_has_id_def m r i)
  from submitOrder_market_never_rests [OF t, of exact_fp] t n show ?thesis
    by (auto simp add: b h i r split: sum.splits)
qed

section \<open>The simple cross\<close>

text \<open>
  Claim C1 asks for one trade (buy 2, sell 1, price 15000, quantity 100) and an empty
  book after SELL LIMIT 15000 x 100 (id 1) and BUY LIMIT 15000 x 100 (id 2) on a fresh
  engine. The run of the code on that input: the second \<open>submitOrder\<close> returns no trade,
  and both orders rest, the buy order at 15000 on the bid side and the sell order at 15000
  on the ask side.
\<close>

theorem simple_cross_no_trade:
  "(case run_ops exact_fp (fresh_world cross_store) [Submit 0] of
      Inl e \<Rightarrow> False
    | Inr w1 \<Rightarrow>
        (case submitOrder exact_fp w1 1 of
           Inl e \<Rightarrow> False
         | Inr (trades, w2) \<Rightarrow>
             trades = [] \<and>
             bids (book w2) = [(15000, \<lparr> lvl_price = 15000, lvl_totalQuantity = 100, lvl_orders = [1] \<rparr>)] \<and>
             asks (book w2) = [(15000, \<lparr> lvl_price = 15000, lvl_totalQuantity = 100, lvl_orders = [0] \<rparr>)] \<and>
             totalTrades (stats (engine w2)) = 0))"
  by (simp add: submitOrder_limit cross_store_def Order_new_def world_defs book_defs)

text \<open>
  Claim C2 asks that the best bid is below the best ask whenever both sides are
  non-empty, after every sequence of public operations from an empty book. The run of
  the code on the two submissions of the simple cross ends with best bid and best ask
  both at 15000.
\<close>

theorem simple_cross_leaves_book_crossed:
  "(case run_ops exact_fp (fresh_world cross_store) [Submit 0, Submit 1] of
      Inl e \<Rightarrow> False
    | Inr w \<Rightarrow> getBestBid (book w) = Some 15000 \<and> getBestAsk (book w) = Some 15000 \<and>
               \<not> non_crossed (book w))"
  by (simp add: submitOrder_limit cross_store_def Order_new_def world_defs book_defs
      non_crossed_def getBestBid_def getBestAsk_def)

section \<open>The cached total of a level\<close>

text \<open>
  Claim C3 asks that the cached total of every level is the sum of the remaining
  quantities of the orders queued there after every public operation. The run of the
  code on two sell orders at one price (100 and 50) followed by the cancellation of the
  first: the level keeps the total 150 while the one order left in its queue has 50
  remaining. \<open>cancel\<close> has set the remaining quantity of the order to 0 before
  \<open>PriceLevel::removeOrder\<close> subtracts it.
\<close>

theorem cancel_leaves_stale_total:
  "(case run_ops exact_fp (fresh_world two_sells_store) [Submit 0, Submit 1, Cancel 1] of
      Inl e \<Rightarrow> False
    | Inr w \<Rightarrow>
        asks (book w) = [(15000, \<lparr> lvl_price = 15000, lvl_totalQuantity = 150, lvl_orders = [1] \<rparr>)] \<and>
        map (\<lambda>(k, l). level_sum (heap w) l) (asks (book w)) = [50] \<and>
        \<not> totals_consistent (heap w) (book w))"
  by (simp add: submitOrder_limit two_sells_store_def Order_new_def world_defs book_defs
      cancelOrder_def level_sum_def totals_consistent_def)

section \<open>Pre-trade validation\<close>




text \<open>What \<open>validateOrder\<close> does leave as it was: the limits, the daily profit, the two
  equity values, and the position that \<open>getPosition\<close> returns for any symbol.\<close>

lemma positions_index_lookup:
  "(case map_of (snd (positions_index fp ps sy)) sy' of Some p \<Rightarrow> p | None \<Rightarrow> Position_new fp)
     = (case map_of ps sy' of Some p \<Rightarrow> p | None \<Rightarrow> Position_new fp)"
  by (simp add: positions_index_def map_add_def split: option.split)

lemma validateOrder_frame:
  "limits (snd (validateOrder fp rm order referencePrice)) = limits rm \<and>
   dailyPnL (snd (validateOrder fp rm order referencePrice)) = dailyPnL rm \<and>
   peakEquity (snd (validateOrder fp rm order referencePrice)) = peakEquity rm \<and>
   currentEquity (snd (validateOrder fp rm order referencePrice)) = currentEquity rm \<and>
   getPosition fp (snd (validateOrder fp rm order referencePrice)) sy = getPosition fp rm sy"
proof -
  obtain position ps where p: "positions_index fp (positions rm) (ord_symbol order) = (position, ps)"
    by (cases "positions_index fp (positions rm) (ord_symbol order)")
  from positions_index_lookup [of fp "positions rm" "ord_symbol order" sy] p
  have g: "getPosition fp (rm\<lparr> positions := ps \<rparr>) sy = getPosition fp rm sy"
    by (simp add: getPosition_def)
  show ?thesis
    by (simp add: validateOrder_def p Let_def g)
qed

text \<open>
  Claim C4 asks that \<open>validateOrder\<close> leaves the position table as it was, including
  which symbols have entries. The run of the code on a risk manager with an empty table
  and default limits and a buy of 100 AAPL at 150.00: the verdict is \<open>ACCEPTED\<close> and the
  table now has an entry for AAPL, the default position that \<open>positions_[symbol]\<close>
  inserts.
\<close>

theorem validateOrder_inserts_position:
  "positions (RiskManager_new exact_fp (RiskLimits_new exact_fp)) = []
   \<and> validateOrder exact_fp (RiskManager_new exact_fp (RiskLimits_new exact_fp)) small_buy 150
       = (ACCEPTED, (RiskManager_new exact_fp (RiskLimits_new exact_fp))
                      \<lparr> positions := [(''AAPL'', Position_new exact_fp)] \<rparr>)"
  by (simp add: validateOrder_def small_buy_def Order_new_def RiskManager_new_def RiskLimits_new_def
      positions_index_def Position_new_def priceToDouble_def exact_fp_def abs64_def)

section \<open>Cancellation\<close>

subsection \<open>Queues and levels\<close>

lemma erase_first_subset: "set (erase_first P xs) \<subseteq> set xs"
  by (induction xs) auto

lemma find_erase_first: "find P xs = Some r \<Longrightarrow> distinct xs \<Longrightarrow> r \<notin> set (erase_first P xs)"
proof (induction xs)
  case Nil
  then show ?case by simp
next
  case (Cons x xs)
  show ?case
  proof (cases "P x")
    case True
    with Cons.prems show ?thesis by simp
  next
    case False
    with Cons.prems have f: "find P xs = Some r" and d: "distinct xs" and nx: "x \<notin> set xs"
      by simp_all
    from f have "r \<in> set xs"
      by (auto simp add: find_Some_iff)
    with nx have "r \<noteq> x" by blast
    with False Cons.IH [OF f d] show ?thesis by simp
  qed
qed

lemma find_unique:
  "r \<in> set xs \<Longrightarrow> P r \<Longrightarrow> \<forall>x \<in> set xs. P x \<longrightarrow> x = r \<Longrightarrow> find P xs = Some r"
proof (induction xs)
  case Nil
  then show ?case by simp
next
  case (Cons x xs)
  show ?case
  proof (cases "P x")
    case True
    with Cons.prems(3) have "x = r" by simp
    with True show ?thesis by simp
  next
    case False
    with Cons.prems(1,2) have "r \<in> set xs" by auto
    moreover from Cons.prems(3) have "\<forall>x \<in> set xs. P x \<longrightarrow> x = r" by simp
    ultimately have "find P xs = Some r" using Cons.prems(2) by (intro Cons.IH)
    with False show ?thesis by simp
  qed
qed

lemma level_refs_Cons: "level_refs ((k, l) # m) = lvl_orders l @ level_refs m"
  by (simp add: level_refs_def)

lemma level_refs_Nil: "level_refs [] = []"
  by (simp add: level_refs_def)

lemma level_refs_member: "(k, l) \<in> set m \<Longrightarrow> set (lvl_orders l) \<subseteq> set (level_refs m)"
  by (induction m) (auto simp add: level_refs_Cons)

lemma level_refs_map_erase: "set (level_refs (map_erase k m)) \<subseteq> set (level_refs m)"
  by (induction m) (auto simp add: level_refs_Cons split: if_splits)

lemma level_refs_map_assign:
  "map_of m k = Some l \<Longrightarrow> set (lvl_orders l') \<subseteq> set (lvl_orders l) \<Longrightarrow>
   set (level_refs (map_assign k l' m)) \<subseteq> set (level_refs m)"
  by (induction m) (auto simp add: level_refs_Cons split: if_splits)

lemma removeOrder_subset: "set (lvl_orders (snd (PriceLevel_removeOrder h l orderId))) \<subseteq> set (lvl_orders l)"
  using erase_first_subset [of "\<lambda>r. ord_id (h r) = orderId" "lvl_orders l"]
  by (simp add: PriceLevel_removeOrder_def split: option.split)

lemma remove_from_side_subset:
  "set (level_refs (remove_from_side h m orderId price)) \<subseteq> set (level_refs m)"
proof (cases "map_of m price")
  case None
  then show ?thesis by (simp add: remove_from_side_def map_find_def)
next
  case (Some l)
  with level_refs_map_erase [of price m]
    level_refs_map_assign [OF Some removeOrder_subset, of h orderId]
  show ?thesis
    by (simp add: remove_from_side_def map_find_def Let_def)
qed

lemma not_in_map_erase:
  "distinct (level_refs m) \<Longrightarrow> map_of m k = Some l \<Longrightarrow> r \<in> set (lvl_orders l) \<Longrightarrow>
   r \<notin> set (level_refs (map_erase k m))"
proof (induction m)
  case Nil
  then show ?case by simp
next
  case (Cons a m)
  obtain k' l0 where a: "a = (k', l0)" by (cases a)
  show ?case
  proof (cases "k = k'")
    case True
    with Cons.prems a show ?thesis by (auto simp add: level_refs_Cons)
  next
    case False
    with Cons.prems a have m: "map_of m k = Some l" and d: "distinct (level_refs m)"
      by (simp_all add: level_refs_Cons)
    from m have "(k, l) \<in> set m" by (rule map_of_SomeD)
    with Cons.prems(3) level_refs_member have "r \<in> set (level_refs m)" by blast
    with Cons.prems(1) a have "r \<notin> set (lvl_orders l0)" by (auto simp add: level_refs_Cons)
    with False a Cons.IH [OF d m Cons.prems(3)] show ?thesis
      by (simp add: level_refs_Cons)
  qed
qed

lemma not_in_map_assign:
  "distinct (level_refs m) \<Longrightarrow> map_of m k = Some l \<Longrightarrow> r \<in> set (lvl_orders l) \<Longrightarrow>
   r \<notin> set (lvl_orders l') \<Longrightarrow> r \<notin> set (level_refs (map_assign k l' m))"
proof (induction m)
  case Nil
  then show ?case by simp
next
  case (Cons a m)
  obtain k' l0 where a: "a = (k', l0)" by (cases a)
  show ?case
  proof (cases "k = k'")
    case True
    with Cons.prems a show ?thesis by (auto simp add: level_refs_Cons)
  next
    case False
    with Cons.prems a have m: "map_of m k = Some l" and d: "distinct (level_refs m)"
      by (simp_all add: level_refs_Cons)
    from m have "(k, l) \<in> set m" by (rule map_of_SomeD)
    with Cons.prems(3) level_refs_member have "r \<in> set (level_refs m)" by blast
    with Cons.prems(1) a have "r \<notin> set (lvl_orders l0)" by (auto simp add: level_refs_Cons)
    with False a Cons.IH [OF d m Cons.prems(3) Cons.prems(4)] show ?thesis
      by (simp add: level_refs_Cons)
  qed
qed

lemma distinct_level: "distinct (level_refs m) \<Longrightarrow> (k, l) \<in> set m \<Longrightarrow> distinct (lvl_orders l)"
  by (induction m) (auto simp add: level_refs_Cons)

lemma remove_from_side_removes:
  assumes k: "distinct (map fst m)" and d: "distinct (level_refs m)"
    and l: "(k, l) \<in> set m" and r: "r \<in> set (lvl_orders l)"
    and i: "ord_id (h r) = orderId"
    and u: "\<forall>x \<in> set (lvl_orders l). ord_id (h x) = orderId \<longrightarrow> x = r"
  shows "r \<notin> set (level_refs (remove_from_side h m orderId k))"
proof -
  from k l have m: "map_of m k = Some l" by simp
  from r i u have f: "find (\<lambda>x. ord_id (h x) = orderId) (lvl_orders l) = Some r"
    by (rule find_unique [where P = "\<lambda>x. ord_id (h x) = orderId"])
  from d l have "distinct (lvl_orders l)" by (rule distinct_level)
  with f have n: "r \<notin> set (erase_first (\<lambda>x. ord_id (h x) = orderId) (lvl_orders l))"
    by (rule find_erase_first)
  let ?l' = "snd (PriceLevel_removeOrder h l orderId)"
  from f n have n': "r \<notin> set (lvl_orders ?l')"
    by (simp add: PriceLevel_removeOrder_def)
  from not_in_map_erase [OF d m r] not_in_map_assign [OF d m r n'] m show ?thesis
    by (simp add: remove_from_side_def map_find_def Let_def)
qed


lemma in_level_refs:
  "x \<in> set (level_refs m) \<Longrightarrow> \<exists>k l. (k, l) \<in> set m \<and> x \<in> set (lvl_orders l)"
  by (fastforce simp add: level_refs_def)

lemma cancel_keeps_id: "ord_id ((h(r := cancel (h r))) x) = ord_id (h x)"
  by (simp add: cancel_def)

lemma side_ok_remove:
  assumes s: "side_ok h b sd m" and d: "distinct (level_refs m)"
    and ix: "orderMap b orderId = Some r" and i: "ord_id (h r) = orderId"
  shows "r \<notin> set (level_refs (remove_from_side (h(r := cancel (h r))) m orderId (ord_price (h r))))"
proof (cases "r \<in> set (level_refs m)")
  case False
  with remove_from_side_subset [of "h(r := cancel (h r))" m orderId "ord_price (h r)"]
  show ?thesis by blast
next
  case True
  then obtain k l where l: "(k, l) \<in> set m" and r: "r \<in> set (lvl_orders l)"
    using in_level_refs by blast
  from s l r have k: "ord_price (h r) = k"
    by (auto simp add: side_ok_def)
  from s have dk: "distinct (map fst m)"
    by (simp add: side_ok_def)
  have u: "\<forall>x \<in> set (lvl_orders l). ord_id ((h(r := cancel (h r))) x) = orderId \<longrightarrow> x = r"
  proof (intro ballI impI)
    fix x
    assume x: "x \<in> set (lvl_orders l)" and e: "ord_id ((h(r := cancel (h r))) x) = orderId"
    from e have "ord_id (h x) = orderId" by (simp only: cancel_keeps_id)
    moreover from s l x have "orderMap b (ord_id (h x)) = Some x"
      by (auto simp add: side_ok_def)
    ultimately show "x = r" using ix by simp
  qed
  from i have i': "ord_id ((h(r := cancel (h r))) r) = orderId"
    by (simp only: cancel_keeps_id)
  have "r \<notin> set (level_refs (remove_from_side (h(r := cancel (h r))) m orderId k))"
    by (rule remove_from_side_removes [OF dk d l r i' u])
  then show ?thesis unfolding k .
qed

lemma book_refs_distinct_sides:
  "distinct (book_refs b) \<Longrightarrow>
   distinct (level_refs (bids b)) \<and> distinct (level_refs (asks b)) \<and>
   set (level_refs (bids b)) \<inter> set (level_refs (asks b)) = {}"
  by (simp add: book_refs_def)

lemma side_ok_side:
  "side_ok h b sd m \<Longrightarrow> x \<in> set (level_refs m) \<Longrightarrow> ord_side (h x) = sd"
  using in_level_refs [of x m] by (auto simp add: side_ok_def)

lemma side_ok_index:
  "side_ok h b sd m \<Longrightarrow> x \<in> set (level_refs m) \<Longrightarrow> orderMap b (ord_id (h x)) = Some x"
  using in_level_refs [of x m] by (auto simp add: side_ok_def)

lemma cancel_removes_ref:
  assumes ok: "book_ok h b" and ix: "orderMap b orderId = Some r"
  shows "r \<notin> set (book_refs (snd (snd (OrderBook_cancelOrder h b orderId))))"
proof -
  let ?h = "h(r := cancel (h r))"
  from ok have sb: "side_ok h b BUY (bids b)" and sa: "side_ok h b SELL (asks b)"
    and d: "distinct (book_refs b)"
    by (simp_all add: book_ok_def)
  from ok ix have i: "ord_id (h r) = orderId"
    by (simp add: book_ok_def)
  from d have db: "distinct (level_refs (bids b))" and da: "distinct (level_refs (asks b))"
    by (simp_all add: book_refs_distinct_sides)
  have p: "ord_price (cancel (h r)) = ord_price (h r)"
    and sd: "ord_side (cancel (h r)) = ord_side (h r)"
    by (simp_all add: cancel_def)
  show ?thesis
  proof (cases "ord_side (h r) = BUY")
    case True
    with sa side_ok_side [of h b SELL "asks b" r] have "r \<notin> set (level_refs (asks b))"
      by auto
    with True side_ok_remove [OF sb db ix i] ix show ?thesis
      by (simp add: OrderBook_cancelOrder_def Let_def p sd removeFromBidSide_def book_refs_def)
  next
    case False
    with sb side_ok_side [of h b BUY "bids b" r] have "r \<notin> set (level_refs (bids b))"
      by auto
    with False side_ok_remove [OF sa da ix i] ix show ?thesis
      by (simp add: OrderBook_cancelOrder_def Let_def p sd removeFromAskSide_def book_refs_def)
  qed
qed

lemma cancel_book_refs_subset:
  "set (book_refs (snd (snd (OrderBook_cancelOrder h b orderId)))) \<subseteq> set (book_refs b)"
proof (cases "orderMap b orderId")
  case None
  then show ?thesis by (simp add: OrderBook_cancelOrder_def)
next
  case (Some r)
  let ?h = "h(r := cancel (h r))"
  from remove_from_side_subset [of ?h "bids b" orderId "ord_price (?h r)"]
    remove_from_side_subset [of ?h "asks b" orderId "ord_price (?h r)"] Some
  show ?thesis
    by (auto simp add: OrderBook_cancelOrder_def Let_def removeFromBidSide_def
        removeFromAskSide_def book_refs_def)
qed

lemma cancel_orderMap:
  "orderMap b orderId = Some r \<Longrightarrow>
   orderMap (snd (snd (OrderBook_cancelOrder h b orderId))) = (orderMap b)(orderId := None)"
  by (simp add: OrderBook_cancelOrder_def Let_def removeFromBidSide_def removeFromAskSide_def)

lemma cancel_heap:
  "orderMap b orderId = Some r \<Longrightarrow>
   fst (snd (OrderBook_cancelOrder h b orderId))
     = h(r := (h r)\<lparr> ord_status := CANCELLED, ord_remainingQuantity := 0 \<rparr>)"
  by (simp add: OrderBook_cancelOrder_def Let_def cancel_def)

lemma cancel_no_id_left:
  assumes ok: "book_ok h b" and ix: "orderMap b orderId = Some r"
  shows "\<not> book_has_id (fst (snd (OrderBook_cancelOrder h b orderId)))
            (snd (snd (OrderBook_cancelOrder h b orderId))) orderId"
proof -
  let ?b = "snd (snd (OrderBook_cancelOrder h b orderId))"
  let ?h = "fst (snd (OrderBook_cancelOrder h b orderId))"
  from ix have hh: "?h = h(r := cancel (h r))"
    by (simp add: OrderBook_cancelOrder_def Let_def)
  from ok have sb: "side_ok h b BUY (bids b)" and sa: "side_ok h b SELL (asks b)"
    by (simp_all add: book_ok_def)
  have "\<not> list_ex (\<lambda>x. ord_id (?h x) = orderId) (book_refs ?b)"
  proof
    assume "list_ex (\<lambda>x. ord_id (?h x) = orderId) (book_refs ?b)"
    then obtain x where x: "x \<in> set (book_refs ?b)" and e: "ord_id (?h x) = orderId"
      by (auto simp add: list_ex_iff)
    from e hh have e': "ord_id (h x) = orderId"
      by (simp add: cancel_def split: if_splits)
    from x cancel_book_refs_subset [of h b orderId] have "x \<in> set (book_refs b)"
      by blast
    then have "orderMap b (ord_id (h x)) = Some x"
      using side_ok_index [OF sb, of x] side_ok_index [OF sa, of x]
      by (auto simp add: book_refs_def)
    with e' ix have "x = r" by simp
    with x cancel_removes_ref [OF ok ix] show False by simp
  qed
  with cancel_orderMap [OF ix, of h] show ?thesis
    by (simp add: book_has_id_def)
qed

text \<open>
  Claim C7. For an id that the id index does not have, \<open>cancelOrder\<close> returns \<open>false\<close> and
  leaves the world (the book and every order object) as it was. For an id that the index
  has, it returns \<open>true\<close>; the order the index points to has status \<open>CANCELLED\<close> and
  remaining quantity 0 afterwards and no other order object is touched; the id is gone
  from the index; and, the book being well formed, the order is queued in no price level
  afterwards and the book holds no order with that id.
\<close>

theorem cancelOrder_by_id:
  "(orderMap (book w) orderId = None \<longrightarrow> cancelOrder w orderId = (False, w)) \<and>
   (\<forall>r. orderMap (book w) orderId = Some r \<longrightarrow>
      (case cancelOrder w orderId of
         (ok, w') \<Rightarrow>
           ok \<and>
           heap w' = (heap w)(r := (heap w r)\<lparr> ord_status := CANCELLED, ord_remainingQuantity := 0 \<rparr>) \<and>
           orderMap (book w') = (orderMap (book w))(orderId := None) \<and>
           (book_ok (heap w) (book w) \<longrightarrow>
              r \<notin> set (book_refs (book w')) \<and> \<not> book_has_id (heap w') (book w') orderId)))"
proof (intro conjI impI allI)
  assume "orderMap (book w) orderId = None"
  then show "cancelOrder w orderId = (False, w)"
    by (simp add: cancelOrder_def OrderBook_cancelOrder_def set_book_def book_def)
next
  fix r
  assume ix: "orderMap (book w) orderId = Some r"
  obtain ok h b where c: "OrderBook_cancelOrder (heap w) (book w) orderId = (ok, h, b)"
    by (cases "OrderBook_cancelOrder (heap w) (book w) orderId")
  from ix c have okT: "ok"
    by (auto simp add: OrderBook_cancelOrder_def Let_def)
  from c cancel_heap [OF ix, of "heap w"] cancel_orderMap [OF ix, of "heap w"]
  have hh: "h = (heap w)(r := (heap w r)\<lparr> ord_status := CANCELLED, ord_remainingQuantity := 0 \<rparr>)"
    and om: "orderMap b = (orderMap (book w))(orderId := None)"
    by simp_all
  have rest: "book_ok (heap w) (book w) \<longrightarrow> r \<notin> set (book_refs b) \<and> \<not> book_has_id h b orderId"
  proof
    assume ok': "book_ok (heap w) (book w)"
    from cancel_removes_ref [OF ok' ix] cancel_no_id_left [OF ok' ix] c
    show "r \<notin> set (book_refs b) \<and> \<not> book_has_id h b orderId" by simp
  qed
  from okT hh om rest c
  show "case cancelOrder w orderId of
         (ok, w') \<Rightarrow>
           ok \<and>
           heap w' = (heap w)(r := (heap w r)\<lparr> ord_status := CANCELLED, ord_remainingQuantity := 0 \<rparr>) \<and>
           orderMap (book w') = (orderMap (book w))(orderId := None) \<and>
           (book_ok (heap w) (book w) \<longrightarrow>
              r \<notin> set (book_refs (book w')) \<and> \<not> book_has_id (heap w') (book w') orderId)"
    by (simp add: cancelOrder_def set_book_def book_def)
qed

theorem cancelOrder_by_id_witness:
  "orderMap (book resting_ask_world) 999 = None \<and>
   cancelOrder resting_ask_world 999 = (False, resting_ask_world) \<and>
   orderMap (book resting_ask_world) 1 = Some 0 \<and>
   book_ok (heap resting_ask_world) (book resting_ask_world) \<and>
   (case cancelOrder resting_ask_world 1 of
      (ok, w') \<Rightarrow>
        ok \<and> ord_status (heap w' 0) = CANCELLED \<and> ord_remainingQuantity (heap w' 0) = 0 \<and>
        heap w' 1 = heap resting_ask_world 1 \<and>
        orderMap (book w') 1 = None \<and> 0 \<notin> set (book_refs (book w')) \<and>
        \<not> book_has_id (heap w') (book w') 1)"
proof -
  have b: "book resting_ask_world = resting_ask_book"
    by (simp add: resting_ask_world_def set_book_def book_def)
  have h: "heap resting_ask_world = market_store"
    by (simp add: resting_ask_world_def set_book_def fresh_world_def)
  have n: "orderMap (book resting_ask_world) 999 = None"
    by (simp add: b resting_ask_book_def)
  have s: "orderMap (book resting_ask_world) 1 = Some 0"
    by (simp add: b resting_ask_book_def)
  have ok: "book_ok (heap resting_ask_world) (book resting_ask_world)"
    by (simp add: b h book_ok_def side_ok_def book_refs_def level_refs_def resting_ask_book_def
        market_store_def Order_new_def)
  from cancelOrder_by_id [of resting_ask_world 999] n
  have c1: "cancelOrder resting_ask_world 999 = (False, resting_ask_world)"
    by blast
  from cancelOrder_by_id [of resting_ask_world 1] s ok
  have c2: "case cancelOrder resting_ask_world 1 of
      (ok, w') \<Rightarrow>
        ok \<and>
        heap w' = (heap resting_ask_world)(0 := (heap resting_ask_world 0)\<lparr> ord_status := CANCELLED, ord_remainingQuantity := 0 \<rparr>) \<and>
        orderMap (book w') = (orderMap (book resting_ask_world))(1 := None) \<and>
        0 \<notin> set (book_refs (book w')) \<and> \<not> book_has_id (heap w') (book w') 1"
    by (auto split: prod.splits)
  from n s ok c1 c2 show ?thesis
    by (auto split: prod.splits)
qed

section \<open>Positions and profit and loss\<close>


lemma map_of_map_assign:
  "map_of ps k = Some v \<Longrightarrow> map_of (map_assign k v' ps) k = Some v'"
  by (induction ps) (auto split: if_splits)

lemma positions_index_fst: "fst (positions_index fp (positions rm) sy) = getPosition fp rm sy"
  by (simp add: positions_index_def getPosition_def split: option.split)

lemma positions_index_map_of:
  "map_of (snd (positions_index fp ps sy)) sy = Some (fst (positions_index fp ps sy))"
  by (simp add: positions_index_def map_add_def split: option.split)

lemma getPosition_updatePosition:
  "getPosition fp (updatePosition fp rm t sd) (trade_symbol t)
     = fst ((if sd = BUY then apply_buy else apply_sell) fp (entry fp rm (trade_symbol t))
              (priceToDouble fp (trade_price t)) (trade_quantity t))"
proof -
  obtain p ps where i: "positions_index fp (positions rm) (trade_symbol t) = (p, ps)"
    by (cases "positions_index fp (positions rm) (trade_symbol t)")
  from i positions_index_fst [of fp rm "trade_symbol t"]
  have p: "p = getPosition fp rm (trade_symbol t)" by simp
  from i positions_index_map_of [of fp "positions rm" "trade_symbol t"]
  have m: "map_of ps (trade_symbol t) = Some p" by simp
  have u: "positions (updatePosition fp rm t sd)
      = map_assign (trade_symbol t)
          (fst ((if sd = BUY then apply_buy else apply_sell) fp
                  (if symbol p = [] then p\<lparr> symbol := trade_symbol t \<rparr> else p)
                  (priceToDouble fp (trade_price t)) (trade_quantity t))) ps"
    by (simp add: updatePosition_def i Let_def split_beta)
  show ?thesis
    apply (subst getPosition_def)
    apply (simp only: u map_of_map_assign [OF m] option.case entry_def)
    apply (simp only: p)
    done
qed







lemma entry_fields:
  "quantity (entry fp rm sy) = quantity (getPosition fp rm sy)"
  "realizedPnL (entry fp rm sy) = realizedPnL (getPosition fp rm sy)"
  "averagePrice (entry fp rm sy) = averagePrice (getPosition fp rm sy)"
  by (simp_all add: entry_def)

text \<open>The round trip leaves the position flat for every quantity and whatever the
  double operations do: the branches it takes depend on the signed quantity only.\<close>

lemma buy_from_flat_quantity:
  "quantity e = 0 \<Longrightarrow> quantity (fst (apply_buy fp e pd q)) = q"
  by (simp add: apply_buy_def Let_def)

lemma sell_all_quantity:
  "quantity e = q \<Longrightarrow> quantity (fst (apply_sell fp e pd q)) = 0"
  by (simp add: apply_sell_def Let_def)

lemma round_trip_flat:
  assumes sy: "trade_symbol t2 = trade_symbol t1"
    and q: "trade_quantity t2 = trade_quantity t1"
    and flat: "quantity (getPosition fp rm (trade_symbol t1)) = 0"
  shows "quantity (getPosition fp (updatePosition fp (updatePosition fp rm t1 BUY) t2 SELL)
                     (trade_symbol t1)) = 0"
proof -
  let ?rm1 = "updatePosition fp rm t1 BUY"
  have e0: "quantity (entry fp rm (trade_symbol t1)) = 0"
    by (simp add: entry_fields flat)
  have "quantity (getPosition fp ?rm1 (trade_symbol t1)) = trade_quantity t1"
    using getPosition_updatePosition [of fp rm t1 BUY] buy_from_flat_quantity [OF e0] by simp
  then have e1: "quantity (entry fp ?rm1 (trade_symbol t1)) = trade_quantity t1"
    by (simp add: entry_fields)
  from getPosition_updatePosition [of fp ?rm1 t2 SELL] sell_all_quantity [OF e1] sy q
  show ?thesis by simp
qed




section \<open>Well-formedness is kept\<close>

text \<open>The empty book is well formed, and \<open>cancelOrder\<close> keeps a book well formed.\<close>

lemma book_ok_new: "book_ok h (OrderBook_new sy)"
  by (simp add: book_ok_def side_ok_def OrderBook_new_def book_refs_def level_refs_def)

lemma distinct_erase_first: "distinct xs \<Longrightarrow> distinct (erase_first P xs)"
proof (induction xs)
  case Nil
  then show ?case by simp
next
  case (Cons x xs)
  with erase_first_subset [of P xs] show ?case by auto
qed

lemma map_erase_subset: "set (map_erase k m) \<subseteq> set m"
  by (induction m) (auto split: if_splits)

lemma map_erase_keys: "set (map fst (map_erase k m)) \<subseteq> set (map fst m)"
  using image_mono [OF map_erase_subset [of k m], of fst] by simp

lemma map_erase_distinct_keys: "distinct (map fst m) \<Longrightarrow> distinct (map fst (map_erase k m))"
proof (induction m)
  case Nil
  then show ?case by simp
next
  case (Cons a m)
  with map_erase_keys [of k m] show ?case by (cases a) auto
qed

lemma map_assign_keys: "map fst (map_assign k v m) = map fst m"
  by (induction m) auto

lemma map_assign_elems: "(k', l') \<in> set (map_assign k v m) \<Longrightarrow> (k', l') \<in> set m \<or> (k' = k \<and> l' = v)"
  by (induction m) (auto split: if_splits)

lemma map_erase_distinct_refs: "distinct (level_refs m) \<Longrightarrow> distinct (level_refs (map_erase k m))"
proof (induction m)
  case Nil
  then show ?case by simp
next
  case (Cons a m)
  obtain k' l where a: "a = (k', l)" by (cases a)
  from Cons level_refs_map_erase [of k m] a show ?case
    by (cases "k = k'") (auto simp add: level_refs_Cons)
qed

lemma map_assign_distinct_refs:
  "distinct (level_refs m) \<Longrightarrow> map_of m k = Some l \<Longrightarrow> set (lvl_orders l') \<subseteq> set (lvl_orders l) \<Longrightarrow>
   distinct (lvl_orders l') \<Longrightarrow> distinct (level_refs (map_assign k l' m))"
proof (induction m)
  case Nil
  then show ?case by simp
next
  case (Cons a m)
  obtain k' l0 where a: "a = (k', l0)" by (cases a)
  show ?case
  proof (cases "k = k'")
    case True
    with Cons.prems a show ?thesis by (auto simp add: level_refs_Cons)
  next
    case False
    with Cons.prems a have m: "map_of m k = Some l" and d: "distinct (level_refs m)"
      by (simp_all add: level_refs_Cons)
    from level_refs_map_assign [OF m Cons.prems(3)] Cons.prems(1) a
    have "set (lvl_orders l0) \<inter> set (level_refs (map_assign k l' m)) = {}"
      by (auto simp add: level_refs_Cons)
    with False a Cons.prems(1) Cons.IH [OF d m Cons.prems(3,4)] show ?thesis
      by (simp add: level_refs_Cons)
  qed
qed

text \<open>What is left of one side after a removal: its levels come from levels that were there.\<close>

lemma remove_from_side_elems:
  assumes "(k, l') \<in> set (remove_from_side h m orderId price)"
  shows "\<exists>l. (k, l) \<in> set m \<and> set (lvl_orders l') \<subseteq> set (lvl_orders l) \<and> lvl_price l' = lvl_price l"
proof (cases "map_of m price")
  case None
  with assms show ?thesis by (auto simp add: remove_from_side_def map_find_def)
next
  case (Some l)
  let ?l = "snd (PriceLevel_removeOrder h l orderId)"
  have p: "lvl_price ?l = lvl_price l"
    by (simp add: PriceLevel_removeOrder_def split: option.split)
  from Some have in_m: "(price, l) \<in> set m" by (rule map_of_SomeD)
  from assms Some have "(k, l') \<in> set (map_erase price m) \<or> (k, l') \<in> set (map_assign price ?l m)"
    by (auto simp add: remove_from_side_def map_find_def Let_def split: if_splits)
  then show ?thesis
  proof
    assume "(k, l') \<in> set (map_erase price m)"
    with map_erase_subset [of price m] show ?thesis by auto
  next
    assume "(k, l') \<in> set (map_assign price ?l m)"
    from map_assign_elems [OF this] in_m p removeOrder_subset [of h l orderId] show ?thesis
      by auto
  qed
qed

lemma remove_from_side_keys:
  "distinct (map fst m) \<Longrightarrow> distinct (map fst (remove_from_side h m orderId price))"
  by (simp add: remove_from_side_def map_find_def Let_def map_erase_distinct_keys map_assign_keys
      split: option.split)

lemma remove_from_side_distinct_refs:
  assumes d: "distinct (level_refs m)"
  shows "distinct (level_refs (remove_from_side h m orderId price))"
proof (cases "map_of m price")
  case None
  with d show ?thesis by (simp add: remove_from_side_def map_find_def)
next
  case (Some l)
  from Some have "(price, l) \<in> set m" by (rule map_of_SomeD)
  with d have dl: "distinct (lvl_orders l)" by (rule distinct_level)
  then have "distinct (lvl_orders (snd (PriceLevel_removeOrder h l orderId)))"
    by (simp add: PriceLevel_removeOrder_def distinct_erase_first split: option.split)
  from map_assign_distinct_refs [OF d Some removeOrder_subset this] map_erase_distinct_refs [OF d] Some
  show ?thesis
    by (simp add: remove_from_side_def map_find_def Let_def)
qed


lemma side_ok_after_cancel:
  assumes s: "side_ok h b sd m"
    and sub: "\<And>k l'. (k, l') \<in> set m' \<Longrightarrow>
                \<exists>l. (k, l) \<in> set m \<and> set (lvl_orders l') \<subseteq> set (lvl_orders l) \<and> lvl_price l' = lvl_price l"
    and dk: "distinct (map fst m')"
    and nr: "r \<notin> set (level_refs m')"
    and ix: "orderMap b orderId = Some r"
    and om: "orderMap b' = (orderMap b)(orderId := None)"
  shows "side_ok (h(r := cancel (h r))) b' sd m'"
proof -
  have main: "lvl_price l' = k \<and> (\<forall>x \<in> set (lvl_orders l').
           ord_price ((h(r := cancel (h r))) x) = k \<and> ord_side ((h(r := cancel (h r))) x) = sd \<and>
           orderMap b' (ord_id ((h(r := cancel (h r))) x)) = Some x)"
    if kl: "(k, l') \<in> set m'" for k l'
  proof -
    from sub [OF kl] obtain l where l: "(k, l) \<in> set m"
      and ss: "set (lvl_orders l') \<subseteq> set (lvl_orders l)" and pr: "lvl_price l' = lvl_price l"
      by blast
    from s l have lk: "lvl_price l = k"
      and all: "\<forall>x \<in> set (lvl_orders l). ord_price (h x) = k \<and> ord_side (h x) = sd \<and>
                 orderMap b (ord_id (h x)) = Some x"
      by (auto simp add: side_ok_def)
    have "ord_price ((h(r := cancel (h r))) x) = k \<and> ord_side ((h(r := cancel (h r))) x) = sd \<and>
           orderMap b' (ord_id ((h(r := cancel (h r))) x)) = Some x"
      if x: "x \<in> set (lvl_orders l')" for x
    proof -
      from x ss all have px: "ord_price (h x) = k" and sx: "ord_side (h x) = sd"
        and ox: "orderMap b (ord_id (h x)) = Some x"
        by auto
      from x kl level_refs_member [of k l' m'] have "x \<in> set (level_refs m')" by blast
      with nr have xr: "x \<noteq> r" by blast
      have "ord_id (h x) \<noteq> orderId"
      proof
        assume "ord_id (h x) = orderId"
        with ox ix have "x = r" by simp
        with xr show False by simp
      qed
      with px sx ox xr om show ?thesis by simp
    qed
    with pr lk show ?thesis by simp
  qed
  show ?thesis
    unfolding side_ok_def
  proof (intro conjI ballI)
    show "distinct (map fst m')" by (rule dk)
  next
    fix kl
    assume a: "kl \<in> set m'"
    obtain k l' where kl: "kl = (k, l')" by (cases kl)
    from a kl have "(k, l') \<in> set m'" by simp
    from main [OF this]
    show "case kl of (k, l) \<Rightarrow> lvl_price l = k \<and> (\<forall>x \<in> set (lvl_orders l).
           ord_price ((h(r := cancel (h r))) x) = k \<and> ord_side ((h(r := cancel (h r))) x) = sd \<and>
           orderMap b' (ord_id ((h(r := cancel (h r))) x)) = Some x)"
      unfolding kl prod.case .
  qed
qed

lemma cancelOrder_book_ok:
  assumes ok: "book_ok h b"
  shows "book_ok (fst (snd (OrderBook_cancelOrder h b orderId))) (snd (snd (OrderBook_cancelOrder h b orderId)))"
proof (cases "orderMap b orderId")
  case None
  with ok show ?thesis by (simp add: OrderBook_cancelOrder_def)
next
  case (Some r)
  let ?h = "h(r := cancel (h r))"
  let ?b = "snd (snd (OrderBook_cancelOrder h b orderId))"
  from Some have hh: "fst (snd (OrderBook_cancelOrder h b orderId)) = ?h"
    by (simp add: OrderBook_cancelOrder_def Let_def)
  from ok have sb: "side_ok h b BUY (bids b)" and sa: "side_ok h b SELL (asks b)"
    and d: "distinct (book_refs b)"
    and ix: "\<forall>i x. orderMap b i = Some x \<longrightarrow> ord_id (h x) = i"
    by (simp_all add: book_ok_def)
  from d have db: "distinct (level_refs (bids b))" and da: "distinct (level_refs (asks b))"
    and dj: "set (level_refs (bids b)) \<inter> set (level_refs (asks b)) = {}"
    by (simp_all add: book_refs_distinct_sides)
  from sb sa have kb: "distinct (map fst (bids b))" and ka: "distinct (map fst (asks b))"
    by (simp_all add: side_ok_def)
  have om: "orderMap ?b = (orderMap b)(orderId := None)"
    by (rule cancel_orderMap [OF Some])
  from cancel_removes_ref [OF ok Some] have nb: "r \<notin> set (level_refs (bids ?b))"
    and na: "r \<notin> set (level_refs (asks ?b))"
    by (simp_all add: book_refs_def)
  let ?p = "ord_price (h r)"
  have shape: "(bids ?b = remove_from_side ?h (bids b) orderId ?p \<and> asks ?b = asks b) \<or>
               (bids ?b = bids b \<and> asks ?b = remove_from_side ?h (asks b) orderId ?p)"
    using Some
    by (simp add: OrderBook_cancelOrder_def Let_def removeFromBidSide_def removeFromAskSide_def cancel_def)
  have idm: "\<exists>l. (k, l) \<in> set m \<and> set (lvl_orders l') \<subseteq> set (lvl_orders l) \<and> lvl_price l' = lvl_price l"
    if "(k, l') \<in> set m" for k l' and m :: levels
    using that by blast
  have sides: "side_ok ?h ?b BUY (bids ?b) \<and> side_ok ?h ?b SELL (asks ?b) \<and>
               distinct (level_refs (bids ?b)) \<and> distinct (level_refs (asks ?b)) \<and>
               set (level_refs (bids ?b)) \<subseteq> set (level_refs (bids b)) \<and>
               set (level_refs (asks ?b)) \<subseteq> set (level_refs (asks b))"
    using shape
  proof
    assume e: "bids ?b = remove_from_side ?h (bids b) orderId ?p \<and> asks ?b = asks b"
    have 1: "side_ok ?h ?b BUY (bids ?b)"
      using nb unfolding conjunct1 [OF e]
      by (intro side_ok_after_cancel [OF sb _ _ _ Some om] remove_from_side_elems
          remove_from_side_keys [OF kb])
    have 2: "side_ok ?h ?b SELL (asks ?b)"
      using na unfolding conjunct2 [OF e]
      by (intro side_ok_after_cancel [OF sa _ _ _ Some om] idm ka)
    from e 1 2 db da remove_from_side_distinct_refs [OF db, of ?h orderId ?p]
      remove_from_side_subset [of ?h "bids b" orderId ?p]
    show ?thesis by simp
  next
    assume e: "bids ?b = bids b \<and> asks ?b = remove_from_side ?h (asks b) orderId ?p"
    have 1: "side_ok ?h ?b SELL (asks ?b)"
      using na unfolding conjunct2 [OF e]
      by (intro side_ok_after_cancel [OF sa _ _ _ Some om] remove_from_side_elems
          remove_from_side_keys [OF ka])
    have 2: "side_ok ?h ?b BUY (bids ?b)"
      using nb unfolding conjunct1 [OF e]
      by (intro side_ok_after_cancel [OF sb _ _ _ Some om] idm kb)
    from e 1 2 db da remove_from_side_distinct_refs [OF da, of ?h orderId ?p]
      remove_from_side_subset [of ?h "asks b" orderId ?p]
    show ?thesis by simp
  qed
  with dj have dd: "distinct (book_refs ?b)"
    by (auto simp add: book_refs_def)
  have "\<forall>i x. orderMap ?b i = Some x \<longrightarrow> ord_id (?h x) = i"
    using ix om by (auto simp add: cancel_def)
  with sides dd hh show ?thesis
    by (simp add: book_ok_def)
qed

text \<open>\<open>OrderBook::addOrder\<close> keeps a book well formed, and in a well-formed book the
  exception of \<open>PriceLevel::addOrder\<close> is never raised.\<close>

lemma map_emplace_find: "map_of m k = None \<Longrightarrow> map_of (map_emplace c k v m) k = Some v"
  by (induction m) (auto split: if_splits)

lemma map_emplace_elems: "map_of m k = None \<Longrightarrow> set (map_emplace c k v m) = insert (k, v) (set m)"
  by (induction m) (auto split: if_splits)

lemma map_emplace_distinct_keys:
  assumes "map_of m k = None" and "distinct (map fst m)"
  shows "distinct (map fst (map_emplace c k v m))"
  using assms
proof (induction m)
  case Nil
  then show ?case by simp
next
  case (Cons a m)
  obtain k' l where a: "a = (k', l)" by (cases a)
  from Cons.prems a have n: "map_of m k = None" and kk: "k \<noteq> k'" and d: "distinct (map fst m)"
    and nk: "k' \<notin> fst ` set m"
    by (auto split: if_splits)
  from n have kn: "k \<notin> fst ` set m"
    by (simp add: map_of_eq_None_iff)
  from map_emplace_elems [OF n, of c v] have e: "fst ` set (map_emplace c k v m) = insert k (fst ` set m)"
    by simp
  from kk a nk kn d e Cons.IH [OF n d] show ?case
    by auto
qed

lemma level_refs_map_emplace:
  "lvl_orders v = [] \<Longrightarrow> level_refs (map_emplace c k v m) = level_refs m"
  by (induction m) (auto simp add: level_refs_Cons level_refs_Nil)

lemma map_assign_append:
  assumes "map_of m k = Some l" and "lvl_orders l' = lvl_orders l @ [r]"
    and "r \<notin> set (level_refs m)" and "distinct (level_refs m)"
  shows "distinct (level_refs (map_assign k l' m)) \<and>
         set (level_refs (map_assign k l' m)) = insert r (set (level_refs m))"
  using assms
proof (induction m)
  case Nil
  then show ?case by simp
next
  case (Cons a m)
  obtain k' l0 where a: "a = (k', l0)" by (cases a)
  show ?case
  proof (cases "k = k'")
    case True
    with Cons.prems a show ?thesis by (auto simp add: level_refs_Cons)
  next
    case False
    with Cons.prems a have m: "map_of m k = Some l" and d: "distinct (level_refs m)"
      and nr: "r \<notin> set (level_refs m)"
      by (simp_all add: level_refs_Cons)
    from Cons.IH [OF m Cons.prems(2) nr d] False a Cons.prems(1,3,4) show ?thesis
      by (auto simp add: level_refs_Cons)
  qed
qed


lemma side_ok_index_extend:
  assumes s: "side_ok h b sd m" and free: "orderMap b i = None"
    and om: "orderMap b' = (orderMap b)(i \<mapsto> r)"
  shows "side_ok h b' sd m"
proof -
  have "orderMap b' (ord_id (h x)) = Some x" if "orderMap b (ord_id (h x)) = Some x" for x
  proof -
    from that free have "ord_id (h x) \<noteq> i" by auto
    with that om show ?thesis by simp
  qed
  with s show ?thesis
    unfolding side_ok_def by blast
qed

lemma add_to_side_ok:
  assumes s: "side_ok h b sd m" and nr: "r \<notin> set (level_refs m)" and d: "distinct (level_refs m)"
    and sd: "ord_side (h r) = sd" and free: "orderMap b (ord_id (h r)) = None"
    and om: "orderMap b' = (orderMap b)(ord_id (h r) \<mapsto> r)"
  shows "\<exists>m'. add_to_side c h m r = Inr m' \<and> side_ok h b' sd m' \<and> distinct (level_refs m') \<and>
              set (level_refs m') = insert r (set (level_refs m))"
proof -
  let ?p = "ord_price (h r)"
  let ?m0 = "case map_of m ?p of None \<Rightarrow> map_emplace c ?p (PriceLevel_new ?p) m | Some _ \<Rightarrow> m"
  from s have dk: "distinct (map fst m)" by (simp add: side_ok_def)
  from side_ok_index_extend [OF s free om] have s': "side_ok h b' sd m" .
  have new_ok: "side_ok h b' sd [(?p, PriceLevel_new ?p)]"
    by (simp add: side_ok_def PriceLevel_new_def)
  have m0: "(\<exists>l0. map_of ?m0 ?p = Some l0) \<and> distinct (map fst ?m0) \<and> level_refs ?m0 = level_refs m \<and>
            set ?m0 \<subseteq> insert (?p, PriceLevel_new ?p) (set m)"
  proof (cases "map_of m ?p")
    case None
    then have e: "?m0 = map_emplace c ?p (PriceLevel_new ?p) m" by simp
    have 1: "\<exists>l0. map_of ?m0 ?p = Some l0"
      unfolding e using map_emplace_find [OF None] by blast
    have 2: "distinct (map fst ?m0)"
      unfolding e by (rule map_emplace_distinct_keys [OF None dk])
    have 3: "level_refs ?m0 = level_refs m"
      unfolding e by (rule level_refs_map_emplace) (simp add: PriceLevel_new_def)
    have 4: "set ?m0 \<subseteq> insert (?p, PriceLevel_new ?p) (set m)"
      unfolding e using map_emplace_elems [OF None, of c "PriceLevel_new ?p"] by simp
    from 1 2 3 4 show ?thesis by blast
  next
    case (Some l)
    then have e: "?m0 = m" by simp
    from Some dk show ?thesis unfolding e by auto
  qed
  then obtain l0 where l0: "map_of ?m0 ?p = Some l0" and dk0: "distinct (map fst ?m0)"
    and refs0: "level_refs ?m0 = level_refs m"
    and sub0: "set ?m0 \<subseteq> insert (?p, PriceLevel_new ?p) (set m)"
    by blast
  have elem_ok: "lvl_price l = k \<and> (\<forall>x \<in> set (lvl_orders l).
      ord_price (h x) = k \<and> ord_side (h x) = sd \<and> orderMap b' (ord_id (h x)) = Some x)"
    if "(k, l) \<in> set ?m0" for k l
  proof -
    from that sub0 have "(k, l) \<in> set m \<or> (k, l) = (?p, PriceLevel_new ?p)" by blast
    then show ?thesis
    proof
      assume "(k, l) \<in> set m"
      with s' show ?thesis unfolding side_ok_def by blast
    next
      assume "(k, l) = (?p, PriceLevel_new ?p)"
      then show ?thesis by (simp add: PriceLevel_new_def)
    qed
  qed
  from l0 have in0: "(?p, l0) \<in> set ?m0" by (rule map_of_SomeD)
  from elem_ok [OF in0] have p0: "lvl_price l0 = ?p"
    and o0: "\<forall>x \<in> set (lvl_orders l0).
      ord_price (h x) = ?p \<and> ord_side (h x) = sd \<and> orderMap b' (ord_id (h x)) = Some x"
    by simp_all
  let ?l' = "l0\<lparr> lvl_orders := lvl_orders l0 @ [r],
                   lvl_totalQuantity := lvl_totalQuantity l0 + ord_remainingQuantity (h r) \<rparr>"
  let ?m' = "map_assign ?p ?l' ?m0"
  from l0 p0 have res: "add_to_side c h m r = Inr ?m'"
    by (simp add: add_to_side_def map_find_def PriceLevel_addOrder_def Let_def)
  from nr d refs0 have nr0: "r \<notin> set (level_refs ?m0)" and d0: "distinct (level_refs ?m0)"
    by simp_all
  have lo: "lvl_orders ?l' = lvl_orders l0 @ [r]" by simp
  from map_assign_append [OF l0 lo nr0 d0] refs0
  have dist: "distinct (level_refs ?m')" and refs: "set (level_refs ?m') = insert r (set (level_refs m))"
    by simp_all
  have "side_ok h b' sd ?m'"
    unfolding side_ok_def
  proof (intro conjI ballI)
    show "distinct (map fst ?m')" using dk0 by (simp only: map_assign_keys)
  next
    fix kl
    assume a: "kl \<in> set ?m'"
    obtain k l where kl: "kl = (k, l)" by (cases kl)
    from a kl have "(k, l) \<in> set ?m'" by simp
    from map_assign_elems [OF this] have "(k, l) \<in> set ?m0 \<or> (k = ?p \<and> l = ?l')" .
    then have "lvl_price l = k \<and> (\<forall>x \<in> set (lvl_orders l).
      ord_price (h x) = k \<and> ord_side (h x) = sd \<and> orderMap b' (ord_id (h x)) = Some x)"
    proof
      assume "(k, l) \<in> set ?m0"
      then show ?thesis by (rule elem_ok)
    next
      assume "k = ?p \<and> l = ?l'"
      with p0 o0 sd om show ?thesis by auto
    qed
    then show "case kl of (k, l) \<Rightarrow> lvl_price l = k \<and> (\<forall>x \<in> set (lvl_orders l).
      ord_price (h x) = k \<and> ord_side (h x) = sd \<and> orderMap b' (ord_id (h x)) = Some x)"
      unfolding kl prod.case .
  qed
  with res dist refs show ?thesis by blast
qed

lemma side_ok_orderMap: "orderMap b1 = orderMap b2 \<Longrightarrow> side_ok h b1 sd m \<Longrightarrow> side_ok h b2 sd m"
  by (simp add: side_ok_def)

lemma addOrder_book_ok:
  assumes ok: "book_ok h b"
  shows "\<exists>added b'. OrderBook_addOrder h b r = Inr (added, b') \<and> book_ok h b'"
proof (cases "ord_symbol (h r) \<noteq> book_symbol b \<or> orderMap b (ord_id (h r)) \<noteq> None")
  case True
  with ok show ?thesis by (auto simp add: OrderBook_addOrder_def)
next
  case False
  then have sy: "ord_symbol (h r) = book_symbol b" and free: "orderMap b (ord_id (h r)) = None"
    by simp_all
  from ok have sb: "side_ok h b BUY (bids b)" and sa: "side_ok h b SELL (asks b)"
    and d: "distinct (book_refs b)"
    and ix: "\<forall>i x. orderMap b i = Some x \<longrightarrow> ord_id (h x) = i"
    by (simp_all add: book_ok_def)
  from d have db: "distinct (level_refs (bids b))" and da: "distinct (level_refs (asks b))"
    and dj: "set (level_refs (bids b)) \<inter> set (level_refs (asks b)) = {}"
    by (simp_all add: book_refs_distinct_sides)
  from free side_ok_index [OF sb, of r] side_ok_index [OF sa, of r]
  have nb: "r \<notin> set (level_refs (bids b))" and na: "r \<notin> set (level_refs (asks b))"
    by auto
  let ?om = "(orderMap b)(ord_id (h r) \<mapsto> r)"
  show ?thesis
  proof (cases "ord_side (h r) = BUY")
    case True
    let ?b = "\<lambda>m. b\<lparr> bids := m, orderMap := ?om \<rparr>"
    have om: "orderMap (?b m) = ?om" for m by simp
    from add_to_side_ok [OF sb nb db True free om, where c = price_greater]
    obtain m' where r1: "add_to_side price_greater h (bids b) r = Inr m'"
      and s0: "side_ok h (?b []) BUY m'" and d1: "distinct (level_refs m')"
      and e1: "set (level_refs m') = insert r (set (level_refs (bids b)))"
      by blast
    from s0 have s1: "side_ok h (?b m') BUY m'"
      by (rule side_ok_orderMap [rotated]) simp
    have s2: "side_ok h (?b m') SELL (asks b)"
      by (rule side_ok_index_extend [OF sa free om])
    from r1 sy free True have res: "OrderBook_addOrder h b r = Inr (True, ?b m')"
      by (simp add: OrderBook_addOrder_def addToBidSide_def Let_def)
    from d1 da e1 dj na have dd: "distinct (book_refs (?b m'))"
      by (auto simp add: book_refs_def)
    from ix have ix': "\<forall>i x. orderMap (?b m') i = Some x \<longrightarrow> ord_id (h x) = i" by auto
    have bb: "bids (?b m') = m'" "asks (?b m') = asks b" by simp_all
    have "book_ok h (?b m')"
      unfolding book_ok_def bb using s1 s2 dd ix' by blast
    with res show ?thesis by blast
  next
    case False
    then have sell: "ord_side (h r) = SELL" by (cases "ord_side (h r)") simp_all
    let ?b = "\<lambda>m. b\<lparr> asks := m, orderMap := ?om \<rparr>"
    have om: "orderMap (?b m) = ?om" for m by simp
    from add_to_side_ok [OF sa na da sell free om, where c = price_less]
    obtain m' where r1: "add_to_side price_less h (asks b) r = Inr m'"
      and s0: "side_ok h (?b []) SELL m'" and d1: "distinct (level_refs m')"
      and e1: "set (level_refs m') = insert r (set (level_refs (asks b)))"
      by blast
    from s0 have s1: "side_ok h (?b m') SELL m'"
      by (rule side_ok_orderMap [rotated]) simp
    have s2: "side_ok h (?b m') BUY (bids b)"
      by (rule side_ok_index_extend [OF sb free om])
    from r1 sy free False have res: "OrderBook_addOrder h b r = Inr (True, ?b m')"
      by (simp add: OrderBook_addOrder_def addToAskSide_def Let_def)
    from d1 db e1 dj nb have dd: "distinct (book_refs (?b m'))"
      by (auto simp add: book_refs_def)
    from ix have ix': "\<forall>i x. orderMap (?b m') i = Some x \<longrightarrow> ord_id (h x) = i" by auto
    have bb: "bids (?b m') = bids b" "asks (?b m') = m'" by simp_all
    have "book_ok h (?b m')"
      unfolding book_ok_def bb using s1 s2 dd ix' by blast
    with res show ?thesis by blast
  qed
qed

text \<open>
  The three public operations of the engine keep the book well formed and return without
  an exception; so does every run of them from a fresh engine, the addresses of the
  orders that \<open>modifyOrder\<close> creates being new.
\<close>

lemma heap_set_book: "heap (set_book b w) = heap w"
  by (simp add: set_book_def)

lemma book_set_book: "book (set_book b w) = b"
  by (simp add: set_book_def book_def)

lemma heap_bump_limit: "heap (bump_limit w) = heap w"
  by (simp add: bump_limit_def set_stats_def)

lemma book_bump_limit: "book (bump_limit w) = book w"
  by (simp add: bump_limit_def set_stats_def book_def)

lemma submitOrder_book_ok:
  assumes ok: "book_ok (heap w) (book w)"
  shows "\<exists>trades w'. submitOrder fp w order = Inr (trades, w') \<and> book_ok (heap w') (book w')"
proof (cases "ord_symbol (heap w order) \<noteq> engine_symbol (engine w)")
  case True
  with ok show ?thesis by (simp add: submitOrder_def)
next
  case False
  show ?thesis
  proof (cases "ord_type (heap w order)")
    case MARKET
    with ok show ?thesis
      by (simp add: submitOrder_market heap_bump_market book_bump_market
          heap_call_orderUpdate book_call_orderUpdate)
  next
    case LIMIT
    from addOrder_book_ok [OF ok, of order]
    obtain added b where a: "OrderBook_addOrder (heap w) (book w) order = Inr (added, b)"
      and b: "book_ok (heap w) b"
      by blast
    from LIMIT False a b ok show ?thesis
      by (simp add: submitOrder_limit heap_bump_limit book_bump_limit heap_set_book book_set_book
          heap_call_orderUpdate book_call_orderUpdate)
  next
    case STOP
    with False ok show ?thesis by (simp add: submitOrder_def)
  next
    case STOP_LIMIT
    with False ok show ?thesis by (simp add: submitOrder_def)
  qed
qed

lemma cancelOrder_world_book_ok:
  assumes ok: "book_ok (heap w) (book w)"
  shows "book_ok (heap (snd (cancelOrder w orderId))) (book (snd (cancelOrder w orderId)))"
  using cancelOrder_book_ok [OF ok, of orderId]
  by (simp add: cancelOrder_def split_beta heap_set_book book_set_book)

lemma side_ok_store:
  assumes s: "side_ok h b sd m" and same: "\<And>r. r \<in> set (level_refs m) \<Longrightarrow> h' r = h r"
  shows "side_ok h' b sd m"
  unfolding side_ok_def
proof (intro conjI ballI)
  from s show "distinct (map fst m)" by (simp add: side_ok_def)
next
  fix kl
  assume a: "kl \<in> set m"
  obtain k l where kl: "kl = (k, l)" by (cases kl)
  from a kl have in_m: "(k, l) \<in> set m" by simp
  with s have p: "lvl_price l = k"
    and all: "\<forall>r \<in> set (lvl_orders l). ord_price (h r) = k \<and> ord_side (h r) = sd \<and>
               orderMap b (ord_id (h r)) = Some r"
    unfolding side_ok_def by blast+
  have "ord_price (h' r) = k \<and> ord_side (h' r) = sd \<and> orderMap b (ord_id (h' r)) = Some r"
    if r: "r \<in> set (lvl_orders l)" for r
  proof -
    from r in_m level_refs_member [of k l m] have "r \<in> set (level_refs m)" by blast
    then have "h' r = h r" by (rule same)
    with all r show ?thesis by simp
  qed
  with p have "lvl_price l = k \<and> (\<forall>r \<in> set (lvl_orders l).
      ord_price (h' r) = k \<and> ord_side (h' r) = sd \<and> orderMap b (ord_id (h' r)) = Some r)"
    by blast
  then show "case kl of (k, l) \<Rightarrow> lvl_price l = k \<and> (\<forall>r \<in> set (lvl_orders l).
      ord_price (h' r) = k \<and> ord_side (h' r) = sd \<and> orderMap b (ord_id (h' r)) = Some r)"
    unfolding kl prod.case .
qed

lemma book_ok_new_object:
  assumes ok: "book_ok h b" and u: "unreferenced b a"
  shows "book_ok (h(a := x)) b"
proof -
  from u have nr: "a \<notin> set (book_refs b)" and ni: "\<forall>i. orderMap b i \<noteq> Some a"
    by (simp_all add: unreferenced_def)
  from ok have sb: "side_ok h b BUY (bids b)" and sa: "side_ok h b SELL (asks b)"
    and d: "distinct (book_refs b)"
    and ix: "\<forall>i r. orderMap b i = Some r \<longrightarrow> ord_id (h r) = i"
    by (simp_all add: book_ok_def)
  have 1: "side_ok (h(a := x)) b BUY (bids b)"
  proof (rule side_ok_store [OF sb])
    fix r assume "r \<in> set (level_refs (bids b))"
    with nr have "r \<noteq> a" by (auto simp add: book_refs_def)
    then show "(h(a := x)) r = h r" by simp
  qed
  have 2: "side_ok (h(a := x)) b SELL (asks b)"
  proof (rule side_ok_store [OF sa])
    fix r assume "r \<in> set (level_refs (asks b))"
    with nr have "r \<noteq> a" by (auto simp add: book_refs_def)
    then show "(h(a := x)) r = h r" by simp
  qed
  have 3: "\<forall>i r. orderMap b i = Some r \<longrightarrow> ord_id ((h(a := x)) r) = i"
  proof (intro allI impI)
    fix i r assume m: "orderMap b i = Some r"
    with ni have "r \<noteq> a" by auto
    with ix m show "ord_id ((h(a := x)) r) = i" by simp
  qed
  from 1 2 3 d show ?thesis unfolding book_ok_def by blast
qed

lemma modifyOrder_book_ok:
  assumes ok: "book_ok (heap w) (book w)" and u: "unreferenced (book w) fresh"
  shows "\<exists>changed w'. modifyOrder w fresh orderId newPrice newQuantity = Inr (changed, w') \<and>
                   book_ok (heap w') (book w')"
proof (cases "orderMap (book w) orderId")
  case None
  with ok show ?thesis
    by (auto simp add: modifyOrder_def OrderBook_modifyOrder_def set_book_def book_def)
next
  case (Some r)
  let ?new = "Order_new orderId (ord_symbol (heap w r)) (ord_side (heap w r)) (ord_type (heap w r))
                newPrice newQuantity"
  let ?h1 = "(heap w)(fresh := ?new)"
  let ?c = "OrderBook_cancelOrder ?h1 (book w) orderId"
  from book_ok_new_object [OF ok u] have ok1: "book_ok ?h1 (book w)" .
  from cancelOrder_book_ok [OF ok1, of orderId]
  have ok2: "book_ok (fst (snd ?c)) (snd (snd ?c))" .
  from addOrder_book_ok [OF ok2, of fresh]
  obtain added b3 where a: "OrderBook_addOrder (fst (snd ?c)) (snd (snd ?c)) fresh = Inr (added, b3)"
    and ok3: "book_ok (fst (snd ?c)) b3"
    by blast
  from Some a ok3 show ?thesis
    by (simp add: modifyOrder_def OrderBook_modifyOrder_def Let_def split_beta
        heap_set_book book_set_book)
qed

lemma apply_op_book_ok:
  assumes ok: "book_ok (heap w) (book w)" and f: "op_fresh w x"
  shows "\<exists>w'. apply_op fp w x = Inr w' \<and> book_ok (heap w') (book w')"
proof (cases x)
  case (Submit order)
  with submitOrder_book_ok [OF ok, of fp order] show ?thesis by auto
next
  case (Cancel orderId)
  with cancelOrder_world_book_ok [OF ok, of orderId] show ?thesis by simp
next
  case (Modify fresh orderId newPrice newQuantity)
  with f have "unreferenced (book w) fresh" by simp
  from modifyOrder_book_ok [OF ok this, of orderId newPrice newQuantity] Modify show ?thesis
    by auto
qed

lemma run_ops_book_ok:
  "book_ok (heap w) (book w) \<Longrightarrow> ops_fresh fp w xs \<Longrightarrow>
   \<exists>w'. run_ops fp w xs = Inr w' \<and> book_ok (heap w') (book w')"
proof (induction xs arbitrary: w)
  case Nil
  then show ?case by simp
next
  case (Cons x xs)
  from Cons.prems(2) have f: "op_fresh w x" by simp
  from apply_op_book_ok [OF Cons.prems(1) f, of fp]
  obtain w1 where a: "apply_op fp w x = Inr w1" and ok1: "book_ok (heap w1) (book w1)"
    by blast
  from Cons.prems(2) a have "ops_fresh fp w1 xs" by simp
  from Cons.IH [OF ok1 this] a show ?case by simp
qed

lemma fresh_world_book_ok: "book_ok (heap (fresh_world h)) (book (fresh_world h))"
  by (simp add: fresh_world_def book_def MatchingEngine_new_def book_ok_new)

end
